theory Spec2Isabelle
  imports Main "HOL-Library.Word" "HOL-Library.Product_Lexorder"
begin

section \<open>Data model of \<^verbatim>\<open>macho/object-file.cc\<close>\<close>

text \<open>
  Modelled from the spec: the structs, declared in \<^verbatim>\<open>mold.h\<close> and \<^verbatim>\<open>macho.h\<close>.
  The records below carry the fields that \<^verbatim>\<open>object-file.cc\<close> reads and writes,
  with the widths of the Mach-O format; the priority of an input is a signed
  64-bit integer, and the unwind range of a subsection (start index and count)
  is a pair of natural numbers. Machine integers are words. Pointers to subsections and to interned symbols
  are addresses (natural numbers) into an explicit store, because the code
  mutates the objects behind them and compares subsection pointers. A pointer
  to an input file is only ever dereferenced for fields that resolution never
  changes, so the owning file of a symbol is kept as the file's base record.
  A null pointer is \<open>None\<close>.
\<close>

type_synonym u8 = "8 word"
type_synonym u16 = "16 word"
type_synonym u32 = "32 word"
type_synonym u64 = "64 word"
type_synonym i64 = "64 word"

type_synonym subsec_ptr = nat
type_synonym sym_ptr = nat

record InputFile =
  mf_name :: string
  archive_name :: string
  priority :: i64
  is_dylib :: bool
  syms :: "sym_ptr list"

record Subsection =
  input_addr :: u32
  input_size :: u32
  unwind_offset :: nat
  nunwind :: nat

record Symbol =
  "file" :: "InputFile option"
  subsec :: "subsec_ptr option"
  "value" :: u64
  is_extern :: bool
  is_lazy :: bool

record MachSym =
  stroff :: u32
  ext :: bool
  type :: "3 word"
  sect :: u8
  desc :: u16
  "value" :: u64

text \<open>
  Modelled from the spec: the constants \<open>N_ABS\<close> and \<open>N_SECT\<close> of \<^verbatim>\<open>macho.h\<close>,
  the types of an absolute-valued and of a section-defined symbol table
  entry, with their values in the Mach-O format.
\<close>

definition N_ABS :: "3 word" where
  "N_ABS = 1"

definition N_SECT :: "3 word" where
  "N_SECT = 7"

text \<open>
  An object file is an input file with its sections and its raw symbol table.
  The type of a section is left open: the only operation on a section used
  here is \<^verbatim>\<open>InputSection::find_subsection\<close>, which is defined in another
  file and is a parameter \<open>find_subsection\<close> of every function that calls it.
\<close>

record UnwindRecord =
  subsec :: "subsec_ptr option"
  offset :: u32
  code_len :: u32
  encoding :: u32
  personality :: "sym_ptr option"
  lsda :: "subsec_ptr option"
  lsda_offset :: u32

record 'sec ObjectFile = InputFile +
  sections :: "'sec list"
  mach_syms :: "MachSym list"
  unwind_records :: "UnwindRecord list"

record MachSection =
  sizeb :: u64
  offset :: u32
  reloff :: u32
  nreloc :: u32

record CompactUnwindEntry =
  code_start :: u64
  code_len :: u32
  encoding :: u32
  personality :: u64
  lsda :: u64

record MachRel =
  offset :: u32
  idx :: "24 word"
  is_pcrel :: bool
  p2size :: "2 word"
  is_extern :: bool
  type :: "4 word"

type_synonym subsec_store = "subsec_ptr \<Rightarrow> Subsection"
type_synonym symbol_table = "sym_ptr \<Rightarrow> Symbol"

section \<open>Symbol resolution\<close>

subsection \<open>\<^verbatim>\<open>get_rank\<close>\<close>

text \<open>
  Both overloads add a band, an \<^verbatim>\<open>int\<close> constant \<open>band << 24\<close>, to
  \<open>file->priority\<close>, an \<^verbatim>\<open>i64\<close>: a signed 64-bit addition, whose overflow is
  undefined (\<open>None\<close>). The sum is returned as \<^verbatim>\<open>u64\<close>, which keeps its bits.
\<close>

definition add_band :: "nat \<Rightarrow> i64 \<Rightarrow> u64 option" where
  "add_band band p =
     (if sint p + int band * 2 ^ 24 < 2 ^ 63 then Some (push_bit 24 (of_nat band) + p)
      else None)"

text \<open>\<^verbatim>\<open>static u64 get_rank(InputFile *file, MachSym &msym, bool is_lazy)\<close>.\<close>

definition get_rank :: "'a InputFile_scheme \<Rightarrow> MachSym \<Rightarrow> bool \<Rightarrow> u64 option" where
  "get_rank f msym lazy =
     (if lazy then add_band 5 (priority f)
      else if is_dylib f then add_band 3 (priority f)
      else add_band 1 (priority f))"

text \<open>\<^verbatim>\<open>static u64 get_rank(Symbol &sym)\<close>, the rank of the incumbent.\<close>

definition get_rank_sym :: "Symbol \<Rightarrow> u64 option" where
  "get_rank_sym symb =
     (case file symb of
        None \<Rightarrow> Some (push_bit 24 7)
      | Some f \<Rightarrow>
          if archive_name f \<noteq> [] then add_band 5 (priority f)
          else if is_dylib f then add_band 3 (priority f)
          else add_band 1 (priority f))"

subsection \<open>\<^verbatim>\<open>ObjectFile::resolve_regular_symbols\<close>\<close>

text \<open>
  The body of the loop for one index \<open>i\<close>, on \<open>symb = *syms[i]\<close> and
  \<open>msym = mach_syms[i]\<close>. \<open>None\<close> is undefined behaviour of the C++: a rank
  whose sum overflows, an index outside \<open>sections\<close>, or \<open>symb.subsec->input_addr\<close>
  on the null pointer that \<open>find_subsection\<close> returned. \<open>find_subsection\<close> takes a \<^verbatim>\<open>u32\<close> address.
\<close>

definition resolve_regular_symbol ::
  "('sec \<Rightarrow> u32 \<Rightarrow> subsec_ptr option) \<Rightarrow> subsec_store \<Rightarrow> 'sec ObjectFile \<Rightarrow>
     MachSym \<Rightarrow> Symbol \<Rightarrow> Symbol option" where
  "resolve_regular_symbol find_subsection store this msym symb =
     (case get_rank this msym False of
        None \<Rightarrow> None
      | Some candidate \<Rightarrow>
          case get_rank_sym symb of
            None \<Rightarrow> None
          | Some incumbent \<Rightarrow>
              if candidate < incumbent then
                if MachSym.type msym = N_ABS then
                  Some (symb\<lparr>file := Some (InputFile.truncate this), Symbol.subsec := None,
                            Symbol.value := MachSym.value msym, Symbol.is_extern := ext msym,
                            is_lazy := False\<rparr>)
                else if MachSym.type msym = N_SECT then
                  (if sect msym = 0 \<or> length (sections this) < unat (sect msym) then None
                   else
                     case find_subsection (sections this ! (unat (sect msym) - 1))
                            (ucast (MachSym.value msym)) of
                       None \<Rightarrow> None
                     | Some p \<Rightarrow>
                         Some (symb\<lparr>file := Some (InputFile.truncate this),
                                   Symbol.subsec := Some p,
                                   Symbol.value :=
                                     MachSym.value msym - ucast (input_addr (store p)),
                                   Symbol.is_extern := ext msym, is_lazy := False\<rparr>))
                else Some symb
              else Some symb)"

text \<open>
  The loop \<open>for (i64 i = 0; i < syms.size(); i++)\<close> over the two index-parallel
  arrays; reading \<open>mach_syms[i]\<close> past the end of the table is undefined.
\<close>

fun resolve_entries ::
  "('sec \<Rightarrow> u32 \<Rightarrow> subsec_ptr option) \<Rightarrow> subsec_store \<Rightarrow> 'sec ObjectFile \<Rightarrow>
     sym_ptr list \<Rightarrow> MachSym list \<Rightarrow> symbol_table \<Rightarrow> symbol_table option" where
  "resolve_entries find_subsection store this [] ms tab = Some tab"
| "resolve_entries find_subsection store this (s # ss) [] tab = None"
| "resolve_entries find_subsection store this (s # ss) (m # ms) tab =
     (case resolve_regular_symbol find_subsection store this m (tab s) of
        None \<Rightarrow> None
      | Some symb' \<Rightarrow> resolve_entries find_subsection store this ss ms (tab(s := symb')))"

definition resolve_regular_symbols ::
  "('sec \<Rightarrow> u32 \<Rightarrow> subsec_ptr option) \<Rightarrow> subsec_store \<Rightarrow> 'sec ObjectFile \<Rightarrow>
     symbol_table \<Rightarrow> symbol_table option" where
  "resolve_regular_symbols find_subsection store this tab =
     resolve_entries find_subsection store this (syms this) (mach_syms this) tab"

subsection \<open>\<^verbatim>\<open>ObjectFile::resolve_lazy_symbols\<close>\<close>

definition resolve_lazy_symbols ::
  "('sec \<Rightarrow> u32 \<Rightarrow> subsec_ptr option) \<Rightarrow> subsec_store \<Rightarrow> 'sec ObjectFile \<Rightarrow>
     symbol_table \<Rightarrow> symbol_table option" where
  "resolve_lazy_symbols find_subsection store this tab =
     resolve_regular_symbols find_subsection store this tab"

subsection \<open>\<^verbatim>\<open>DylibFile::resolve_symbols\<close>\<close>

record DylibFile = InputFile +
  install_name :: string

text \<open>
  The test \<open>sym->file && sym->file->priority < priority\<close> compares two
  \<^verbatim>\<open>i64\<close> values, hence signed.
\<close>

definition dylib_skips :: "DylibFile \<Rightarrow> Symbol \<Rightarrow> bool" where
  "dylib_skips this symb =
     (case file symb of None \<Rightarrow> False | Some f \<Rightarrow> priority f <s priority this)"

definition dylib_resolve_symbol :: "DylibFile \<Rightarrow> Symbol \<Rightarrow> Symbol" where
  "dylib_resolve_symbol this symb =
     (if dylib_skips this symb then symb
      else symb\<lparr>file := Some (InputFile.truncate this), Symbol.is_extern := True\<rparr>)"

fun dylib_resolve_loop :: "DylibFile \<Rightarrow> sym_ptr list \<Rightarrow> symbol_table \<Rightarrow> symbol_table" where
  "dylib_resolve_loop this [] tab = tab"
| "dylib_resolve_loop this (s # ss) tab =
     dylib_resolve_loop this ss (tab(s := dylib_resolve_symbol this (tab s)))"

definition dylib_resolve_symbols :: "DylibFile \<Rightarrow> symbol_table \<Rightarrow> symbol_table" where
  "dylib_resolve_symbols this tab = dylib_resolve_loop this (syms this) tab"

section \<open>\<^verbatim>\<open>ObjectFile::parse_compact_unwind\<close>\<close>

subsection \<open>The section header, the unwind entries and the relocations\<close>

text \<open>
  \<^verbatim>\<open>MachSection\<close>, \<^verbatim>\<open>CompactUnwindEntry\<close> and \<^verbatim>\<open>MachRel\<close> are the on-disk
  structs of \<^verbatim>\<open>macho.h\<close>. The function reads the entries through the typed
  pointer \<open>src = mf->data + hdr.offset\<close> and the relocations through
  \<open>mach_rels = mf->data + hdr.reloff\<close>; here \<open>src\<close> and \<open>mach_rels\<close> are the lists
  of structs that the mapped file holds from these two addresses on, and a
  read past the end of either is undefined.
\<close>

text \<open>
  Modelled from the spec: \<open>sizeof(CompactUnwindEntry)\<close> and the three
  \<open>offsetof\<close> constants of the switch (the struct is declared in
  \<^verbatim>\<open>macho.h\<close>), for the fixed-size record \<open>(code_start: 8 bytes, code_len,
  encoding, personality: 8 bytes, lsda: 8 bytes)\<close> with \<open>code_len\<close> and \<open>encoding\<close>
  of 4 bytes each.
\<close>

definition sizeof_CompactUnwindEntry :: nat where
  "sizeof_CompactUnwindEntry = 32"

definition offsetof_code_start :: nat where
  "offsetof_code_start = 0"

definition offsetof_personality :: nat where
  "offsetof_personality = 16"

definition offsetof_lsda :: nat where
  "offsetof_lsda = 24"

subsection \<open>Outcomes\<close>

text \<open>
  A message is the sequence of items streamed into \<^verbatim>\<open>Fatal(ctx)\<close>:
  \<open>MFile\<close> is \<open>*this\<close> (the operator prints the name of the mapped file),
  \<open>MStr\<close> a string literal and \<open>MNum\<close> an integer. \<open>Fatal\<close> ends the process; the
  outcome keeps the state at that moment. \<open>Undefined\<close> is undefined behaviour
  of the C++ (an index out of range, a null pointer dereferenced).
\<close>

datatype msg_item = MFile string | MStr string | MNum nat

datatype 'a outcome = Ok 'a | Fatal "msg_item list" 'a | Undefined

subsection \<open>Reading the entries\<close>

text \<open>
  Modelled from the spec: the constructor \<open>UnwindRecord(len, enc)\<close> of \<^verbatim>\<open>mold.h\<close>.
  The owning subsection, the personality and the LSDA subsection are null
  until a relocation resolves them, and the offsets are zero.
\<close>

definition new_UnwindRecord :: "u32 \<Rightarrow> u32 \<Rightarrow> UnwindRecord" where
  "new_UnwindRecord len enc =
     \<lparr>subsec = None, offset = 0, code_len = len, encoding = enc, personality = None,
      lsda = None, lsda_offset = 0\<rparr>"

function read_entries ::
  "CompactUnwindEntry list \<Rightarrow> nat \<Rightarrow> nat \<Rightarrow> UnwindRecord list \<Rightarrow> UnwindRecord list option" where
  "read_entries src i num_entries recs =
     (if i < num_entries then
        if i < length src then
          read_entries src (i + 1) num_entries
            (recs @ [new_UnwindRecord (CompactUnwindEntry.code_len (src ! i))
                       (CompactUnwindEntry.encoding (src ! i))])
        else None
      else Some recs)"
  by pat_completeness auto
termination
  by (relation "measure (\<lambda>(src, i, num_entries, recs). num_entries - i)") auto

declare read_entries.simps [simp del]

subsection \<open>Reading the relocations\<close>

definition unsupported_relocation :: "'a InputFile_scheme \<Rightarrow> nat \<Rightarrow> msg_item list" where
  "unsupported_relocation this i =
     [MFile (mf_name this), MStr '': __compact_unwind: unsupported relocation: '', MNum i]"

text \<open>
  The body of the relocation loop for relocation \<open>i\<close>. \<open>sections[r.idx - 1]\<close>
  and \<open>syms[r.idx]\<close> are unchecked vector accesses. In the \<open>lsda\<close> case the
  32-bit value at \<open>mf->data + hdr.offset + r.offset\<close> is the low half of the
  \<open>lsda\<close> field of entry \<open>idx\<close> (the file is little-endian), and the result of
  \<open>find_subsection\<close> is dereferenced without a null check.
\<close>

definition read_relocation ::
  "('sec \<Rightarrow> u32 \<Rightarrow> subsec_ptr option) \<Rightarrow> subsec_store \<Rightarrow> MachSection \<Rightarrow>
     CompactUnwindEntry list \<Rightarrow> nat \<Rightarrow> MachRel \<Rightarrow> 'sec ObjectFile \<Rightarrow> 'sec ObjectFile outcome" where
  "read_relocation find_subsection store hdr src i r this =
     (if unat (sizeb hdr) \<le> unat (MachRel.offset r) then
        Fatal [MFile (mf_name this), MStr '': relocation offset too large: '', MNum i] this
      else
        let idx = unat (MachRel.offset r) div sizeof_CompactUnwindEntry;
            field = unat (MachRel.offset r) mod sizeof_CompactUnwindEntry
        in
        if length (unwind_records this) \<le> idx then Undefined
        else
          let dst = unwind_records this ! idx in
          if field = offsetof_code_start then
            if is_pcrel r \<or> p2size r \<noteq> 3 \<or> MachRel.is_extern r \<or> MachRel.type r \<noteq> 0 then
              Fatal (unsupported_relocation this i) this
            else if MachRel.idx r = 0 \<or> length (sections this) < unat (MachRel.idx r)
                    \<or> length src \<le> idx then Undefined
            else
              case find_subsection (sections this ! (unat (MachRel.idx r) - 1))
                     (ucast (code_start (src ! idx))) of
                None \<Rightarrow> Fatal (unsupported_relocation this i) this
              | Some target \<Rightarrow>
                  Ok (this\<lparr>unwind_records := (unwind_records this)
                       [idx := dst\<lparr>UnwindRecord.subsec := Some target,
                          UnwindRecord.offset :=
                            ucast (code_start (src ! idx) - ucast (input_addr (store target)))\<rparr>]\<rparr>)
          else if field = offsetof_personality then
            if is_pcrel r \<or> p2size r \<noteq> 3 \<or> \<not> MachRel.is_extern r \<or> MachRel.type r \<noteq> 0 then
              Fatal (unsupported_relocation this i) this
            else if length (syms this) \<le> unat (MachRel.idx r) then Undefined
            else
              Ok (this\<lparr>unwind_records := (unwind_records this)
                   [idx := dst\<lparr>UnwindRecord.personality :=
                      Some (syms this ! unat (MachRel.idx r))\<rparr>]\<rparr>)
          else if field = offsetof_lsda then
            if is_pcrel r \<or> p2size r \<noteq> 3 \<or> MachRel.is_extern r \<or> MachRel.type r \<noteq> 0 then
              Fatal (unsupported_relocation this i) this
            else if MachRel.idx r = 0 \<or> length (sections this) < unat (MachRel.idx r)
                    \<or> length src \<le> idx then Undefined
            else
              let adr = (ucast (CompactUnwindEntry.lsda (src ! idx)) :: u32) in
              case find_subsection (sections this ! (unat (MachRel.idx r) - 1)) adr of
                None \<Rightarrow> Undefined
              | Some target \<Rightarrow>
                  Ok (this\<lparr>unwind_records := (unwind_records this)
                       [idx := dst\<lparr>UnwindRecord.lsda := Some target,
                          lsda_offset := adr - input_addr (store target)\<rparr>]\<rparr>)
          else Fatal (unsupported_relocation this i) this)"

function read_relocations ::
  "('sec \<Rightarrow> u32 \<Rightarrow> subsec_ptr option) \<Rightarrow> subsec_store \<Rightarrow> MachSection \<Rightarrow>
     CompactUnwindEntry list \<Rightarrow> MachRel list \<Rightarrow> nat \<Rightarrow> nat \<Rightarrow> 'sec ObjectFile \<Rightarrow>
     'sec ObjectFile outcome" where
  "read_relocations find_subsection store hdr src mach_rels i n this =
     (if i < n then
        if i < length mach_rels then
          case read_relocation find_subsection store hdr src i (mach_rels ! i) this of
            Ok this' \<Rightarrow> read_relocations find_subsection store hdr src mach_rels (i + 1) n this'
          | Fatal msg this' \<Rightarrow> Fatal msg this'
          | Undefined \<Rightarrow> Undefined
        else Undefined
      else Ok this)"
  by pat_completeness auto
termination
  by (relation "measure (\<lambda>(find_subsection, store, hdr, src, mach_rels, i, n, this). n - i)") auto

declare read_relocations.simps [simp del]

subsection \<open>The check for records without a subsection\<close>

function check_relocated :: "'sec ObjectFile \<Rightarrow> nat \<Rightarrow> nat \<Rightarrow> 'sec ObjectFile outcome" where
  "check_relocated this i num_entries =
     (if i < num_entries then
        if length (unwind_records this) \<le> i then Undefined
        else if UnwindRecord.subsec (unwind_records this ! i) = None then
          Fatal [MStr '': __compact_unwind: missing relocation at '', MNum i] this
        else check_relocated this (i + 1) num_entries
      else Ok this)"
  by pat_completeness auto
termination
  by (relation "measure (\<lambda>(this, i, num_entries). num_entries - i)") auto

declare check_relocated.simps [simp del]

subsection \<open>Sorting\<close>

text \<open>
  Modelled from the spec: the helper \<open>sort\<close> of \<^verbatim>\<open>mold.h\<close>, a stable sort
  (the records are stably sorted by subsection address and offset within the
  subsection). The comparison passed to it is in this file: it orders two
  records by the tuple \<open>(subsec->input_addr, offset)\<close>, lexicographically on
  unsigned values, and dereferences \<open>subsec\<close> of every record it is given.
\<close>

definition unwind_key :: "subsec_store \<Rightarrow> UnwindRecord \<Rightarrow> u32 \<times> u32" where
  "unwind_key store r =
     (case UnwindRecord.subsec r of
        Some p \<Rightarrow> (input_addr (store p), UnwindRecord.offset r)
      | None \<Rightarrow> (0, UnwindRecord.offset r))"

definition sort_unwind_records :: "subsec_store \<Rightarrow> UnwindRecord list \<Rightarrow> UnwindRecord list option" where
  "sort_unwind_records store recs =
     (if 2 \<le> length recs \<and> None \<in> UnwindRecord.subsec ` set recs then None
      else Some (sort_key (unwind_key store) recs))"

subsection \<open>Associating the records with the subsections\<close>

text \<open>The inner loop \<open>while (j < num_entries && unwind_records[j].subsec == &subsec) j++\<close>.\<close>

function skip_run :: "UnwindRecord list \<Rightarrow> subsec_ptr \<Rightarrow> nat \<Rightarrow> nat \<Rightarrow> nat" where
  "skip_run recs p j num_entries =
     (if j < num_entries \<and> j < length recs \<and> UnwindRecord.subsec (recs ! j) = Some p
      then skip_run recs p (j + 1) num_entries else j)"
  by pat_completeness auto
termination
  by (relation "measure (\<lambda>(recs, p, j, num_entries). num_entries - j)") auto

declare skip_run.simps [simp del]

lemma skip_run_ge: "j \<le> skip_run recs p j num_entries"
proof (induction recs p j num_entries rule: skip_run.induct)
  case (1 recs p j num_entries)
  show ?case
  proof (cases "j < num_entries \<and> j < length recs \<and> UnwindRecord.subsec (recs ! j) = Some p")
    case True
    then have "j + 1 \<le> skip_run recs p (j + 1) num_entries"
      using "1.IH" by simp
    then show ?thesis
      using True by (subst skip_run.simps) simp
  next
    case False
    then show ?thesis
      by (subst skip_run.simps) auto
  qed
qed

lemma skip_run_le: "j \<le> num_entries \<Longrightarrow> skip_run recs p j num_entries \<le> num_entries"
proof (induction recs p j num_entries rule: skip_run.induct)
  case (1 recs p j num_entries)
  show ?case
  proof (cases "j < num_entries \<and> j < length recs \<and> UnwindRecord.subsec (recs ! j) = Some p")
    case True
    then have "skip_run recs p (j + 1) num_entries \<le> num_entries"
      using "1.IH" by simp
    then show ?thesis
      using True by (subst skip_run.simps) simp
  next
    case False
    then show ?thesis
      using "1.prems" by (subst skip_run.simps) auto
  qed
qed

text \<open>
  The outer loop. \<open>unwind_offset\<close> and \<open>nunwind\<close> are written through the
  pointer \<open>unwind_records[i].subsec\<close>.
\<close>

function associate ::
  "UnwindRecord list \<Rightarrow> nat \<Rightarrow> nat \<Rightarrow> subsec_store \<Rightarrow> subsec_store option" where
  "associate recs i num_entries store =
     (if i < num_entries then
        if length recs \<le> i then None
        else
          case UnwindRecord.subsec (recs ! i) of
            None \<Rightarrow> None
          | Some p \<Rightarrow>
              let j = skip_run recs p (i + 1) num_entries in
              associate recs j num_entries
                (store(p := (store p)\<lparr>unwind_offset := i, nunwind := j - i\<rparr>))
      else Some store)"
  by pat_completeness auto
termination
proof (relation "measure (\<lambda>(recs, i, num_entries, store). num_entries - i)")
  show "wf (measure (\<lambda>(recs, i, num_entries, store). num_entries - i))"
    by simp
next
  fix recs :: "UnwindRecord list" and i num_entries :: nat and store :: subsec_store
    and p :: subsec_ptr and j :: nat
  assume "i < num_entries" and "j = skip_run recs p (i + 1) num_entries"
  moreover have "i + 1 \<le> skip_run recs p (i + 1) num_entries"
    by (rule skip_run_ge)
  ultimately show "((recs, j, num_entries, store(p := (store p)\<lparr>unwind_offset := i, nunwind := j - i\<rparr>)),
      (recs, i, num_entries, store)) \<in> measure (\<lambda>(recs, i, num_entries, store). num_entries - i)"
    by simp
qed

declare associate.simps [simp del]

subsection \<open>The function\<close>

definition parse_compact_unwind ::
  "('sec \<Rightarrow> u32 \<Rightarrow> subsec_ptr option) \<Rightarrow> MachSection \<Rightarrow> CompactUnwindEntry list \<Rightarrow>
     MachRel list \<Rightarrow> 'sec ObjectFile \<times> subsec_store \<Rightarrow> ('sec ObjectFile \<times> subsec_store) outcome" where
  "parse_compact_unwind find_subsection hdr src mach_rels st =
     (let this = fst st; store = snd st in
      if unat (sizeb hdr) mod sizeof_CompactUnwindEntry \<noteq> 0 then
        Fatal [MFile (mf_name this), MStr '': invalid __compact_unwind section size''] st
      else
        let num_entries = unat (sizeb hdr) div sizeof_CompactUnwindEntry in
        case read_entries src 0 num_entries (unwind_records this) of
          None \<Rightarrow> Undefined
        | Some recs \<Rightarrow>
            case read_relocations find_subsection store hdr src mach_rels 0 (unat (nreloc hdr))
                   (this\<lparr>unwind_records := recs\<rparr>) of
              Undefined \<Rightarrow> Undefined
            | Fatal msg this' \<Rightarrow> Fatal msg (this', store)
            | Ok this' \<Rightarrow>
                case check_relocated this' 0 num_entries of
                  Undefined \<Rightarrow> Undefined
                | Fatal msg this'' \<Rightarrow> Fatal msg (this'', store)
                | Ok this'' \<Rightarrow>
                    case sort_unwind_records store (unwind_records this'') of
                      None \<Rightarrow> Undefined
                    | Some recs' \<Rightarrow>
                        case associate recs' 0 num_entries store of
                          None \<Rightarrow> Undefined
                        | Some store' \<Rightarrow> Ok (this''\<lparr>unwind_records := recs'\<rparr>, store'))"

section \<open>Predicates of the statements\<close>

text \<open>
  The relocations that the switch refuses whatever they refer to: one at the
  \<open>code_start\<close> field that is position-relative, not 8 bytes wide, external or
  typed, and one at an offset that is none of the three fields.
\<close>

definition unsupported_shape :: "MachRel \<Rightarrow> bool" where
  "unsupported_shape r =
     (let field = unat (MachRel.offset r) mod sizeof_CompactUnwindEntry in
      (field = offsetof_code_start \<and>
         (is_pcrel r \<or> p2size r \<noteq> 3 \<or> MachRel.is_extern r \<or> MachRel.type r \<noteq> 0))
      \<or> (field \<noteq> offsetof_code_start \<and> field \<noteq> offsetof_personality
           \<and> field \<noteq> offsetof_lsda))"

text \<open>
  The subsections that \<open>find_subsection\<close> can return for the sections of a
  file, and the condition that no two of them start at the same input
  address. Within one section the subsections are disjoint; the condition
  says the same across the sections of the file.
\<close>

definition subsections_of :: "('sec \<Rightarrow> u32 \<Rightarrow> subsec_ptr option) \<Rightarrow> 'sec list \<Rightarrow> subsec_ptr set" where
  "subsections_of find_subsection secs =
     {p. \<exists>sec \<in> set secs. \<exists>a. find_subsection sec a = Some p}"

definition distinct_input_addrs ::
  "('sec \<Rightarrow> u32 \<Rightarrow> subsec_ptr option) \<Rightarrow> subsec_store \<Rightarrow> 'sec list \<Rightarrow> bool" where
  "distinct_input_addrs find_subsection store secs =
     inj_on (\<lambda>p. input_addr (store p)) (subsections_of find_subsection secs)"

text \<open>Every record that has an owning subsection has it in \<open>S\<close>.\<close>

definition owners_in :: "subsec_ptr set \<Rightarrow> UnwindRecord list \<Rightarrow> bool" where
  "owners_in S recs = (\<forall>r \<in> set recs. \<forall>p. UnwindRecord.subsec r = Some p \<longrightarrow> p \<in> S)"

section \<open>Example inputs\<close>

text \<open>
  Two dynamic libraries and a regular object file, with the priorities the
  loader gives to the second, third and sixth input of a link, and a symbol
  table in which symbol 0 is owned by the object file, symbol 1 has no owner
  and symbol 2 is owned by the later library.
\<close>

definition ex_dylib :: DylibFile where
  "ex_dylib = \<lparr>mf_name = ''libSystem.tbd'', archive_name = [], priority = 3,
     is_dylib = True, syms = [0, 1, 2], install_name = ''/usr/lib/libSystem.B.dylib''\<rparr>"

definition ex_early_file :: InputFile where
  "ex_early_file = \<lparr>mf_name = ''a.o'', archive_name = [], priority = 2,
     is_dylib = False, syms = [0]\<rparr>"

definition ex_late_file :: InputFile where
  "ex_late_file = \<lparr>mf_name = ''libz.tbd'', archive_name = [], priority = 6,
     is_dylib = True, syms = [2]\<rparr>"

definition ex_symbol :: "InputFile option \<Rightarrow> Symbol" where
  "ex_symbol f = \<lparr>file = f, subsec = Some 4, value = 16, is_extern = False, is_lazy = False\<rparr>"

definition ex_table :: symbol_table where
  "ex_table = (\<lambda>s. ex_symbol None)(0 := ex_symbol (Some ex_early_file),
     2 := ex_symbol (Some ex_late_file))"

text \<open>
  A store of subsections, and an instance of \<open>find_subsection\<close> for the
  examples: a section is the list of its subsections in ascending address
  order, and the lookup returns the last subsection that starts at or before
  the address, or null when there is none.
\<close>

definition ex_store :: subsec_store where
  "ex_store = (\<lambda>p. \<lparr>input_addr = 0, input_size = 0, unwind_offset = 0, nunwind = 0\<rparr>)
     (7 := \<lparr>input_addr = 0x100, input_size = 0x40, unwind_offset = 0, nunwind = 0\<rparr>,
      8 := \<lparr>input_addr = 0x140, input_size = 0x20, unwind_offset = 0, nunwind = 0\<rparr>,
      9 := \<lparr>input_addr = 0x200, input_size = 0x80, unwind_offset = 0, nunwind = 0\<rparr>)"

definition ex_find_subsection :: "subsec_ptr list \<Rightarrow> u32 \<Rightarrow> subsec_ptr option" where
  "ex_find_subsection sec addr =
     (case filter (\<lambda>p. input_addr (ex_store p) \<le> addr) sec of
        [] \<Rightarrow> None
      | p # ps \<Rightarrow> Some (last (p # ps)))"

text \<open>
  A regular object file \<open>main.o\<close> (the fifth input) and a member \<open>b.o\<close> of
  the archive \<open>libfoo.a\<close> (the second input); both define symbol 0 in a
  section.
\<close>

definition ex_msym :: MachSym where
  "ex_msym = \<lparr>stroff = 1, ext = True, type = N_SECT, sect = 1, desc = 0, value = 0x148\<rparr>"

definition ex_object :: "(subsec_ptr list) ObjectFile" where
  "ex_object = \<lparr>mf_name = ''main.o'', archive_name = [], priority = 5, is_dylib = False,
     syms = [0], sections = [[7, 8], [9]], mach_syms = [ex_msym], unwind_records = []\<rparr>"

definition ex_member :: "(subsec_ptr list) ObjectFile" where
  "ex_member = \<lparr>mf_name = ''b.o'', archive_name = ''libfoo.a'', priority = 2,
     is_dylib = False, syms = [0], sections = [[9]],
     mach_syms = [ex_msym\<lparr>MachSym.value := 0x210\<rparr>], unwind_records = []\<rparr>"

definition ex_fresh :: symbol_table where
  "ex_fresh = (\<lambda>s. \<lparr>file = None, subsec = None, value = 0, is_extern = False, is_lazy = False\<rparr>)"

definition ex_defined_by_object :: Symbol where
  "ex_defined_by_object = \<lparr>file = Some (InputFile.truncate ex_object), subsec = Some 8,
     value = 8, is_extern = True, is_lazy = False\<rparr>"

definition ex_defined_by_member :: Symbol where
  "ex_defined_by_member = \<lparr>file = Some (InputFile.truncate ex_member), subsec = Some 9,
     value = 0x10, is_extern = True, is_lazy = False\<rparr>"

text \<open>
  A \<open>__compact_unwind\<close> section of three entries for \<open>main.o\<close>, with the
  relocations of their \<open>code_start\<close> fields and of the \<open>personality\<close> and
  \<open>lsda\<close> fields of the second entry, and what the function makes of it.
\<close>

definition ex_hdr :: MachSection where
  "ex_hdr = \<lparr>sizeb = 96, offset = 0x400, reloff = 0x500, nreloc = 5\<rparr>"

definition ex_src :: "CompactUnwindEntry list" where
  "ex_src =
     [\<lparr>code_start = 0x148, code_len = 0x10, encoding = 0x4000000, personality = 0, lsda = 0\<rparr>,
      \<lparr>code_start = 0x100, code_len = 0x40, encoding = 0x4000000, personality = 0, lsda = 0x210\<rparr>,
      \<lparr>code_start = 0x14c, code_len = 4, encoding = 0, personality = 0, lsda = 0\<rparr>]"

definition ex_rel :: "nat \<Rightarrow> nat \<Rightarrow> bool \<Rightarrow> MachRel" where
  "ex_rel off i x = \<lparr>offset = of_nat off, idx = of_nat i, is_pcrel = False, p2size = 3,
     is_extern = x, type = 0\<rparr>"

definition ex_rels :: "MachRel list" where
  "ex_rels = [ex_rel 0 1 False, ex_rel 32 1 False, ex_rel 64 1 False, ex_rel 48 0 True,
     ex_rel 56 2 False]"

definition ex_parsed_records :: "UnwindRecord list" where
  "ex_parsed_records =
     [\<lparr>subsec = Some 7, offset = 0, code_len = 0x40, encoding = 0x4000000,
        personality = Some 0, lsda = Some 9, lsda_offset = 0x10\<rparr>,
      \<lparr>subsec = Some 8, offset = 8, code_len = 0x10, encoding = 0x4000000,
        personality = None, lsda = None, lsda_offset = 0\<rparr>,
      \<lparr>subsec = Some 8, offset = 0xc, code_len = 4, encoding = 0,
        personality = None, lsda = None, lsda_offset = 0\<rparr>]"

definition ex_parsed_store :: subsec_store where
  "ex_parsed_store = ex_store
     (7 := \<lparr>input_addr = 0x100, input_size = 0x40, unwind_offset = 0, nunwind = 1\<rparr>,
      8 := \<lparr>input_addr = 0x140, input_size = 0x20, unwind_offset = 1, nunwind = 2\<rparr>)"

text \<open>
  The records of that section as read, after the first and after the second
  relocation; a position-relative relocation of a \<open>code_start\<close> field, once
  inside the section and once at its end.
\<close>

definition ex_read_records :: "UnwindRecord list" where
  "ex_read_records =
     [new_UnwindRecord 0x10 0x4000000, new_UnwindRecord 0x40 0x4000000, new_UnwindRecord 4 0]"

definition ex_first_relocated :: "UnwindRecord list" where
  "ex_first_relocated = ex_read_records
     [0 := (new_UnwindRecord 0x10 0x4000000)\<lparr>UnwindRecord.subsec := Some 8, UnwindRecord.offset := 8\<rparr>]"

definition ex_two_relocated :: "UnwindRecord list" where
  "ex_two_relocated = ex_first_relocated
     [1 := (new_UnwindRecord 0x40 0x4000000)\<lparr>UnwindRecord.subsec := Some 7, UnwindRecord.offset := 0\<rparr>]"

definition ex_pcrel_rel :: MachRel where
  "ex_pcrel_rel = (ex_rel 32 1 False)\<lparr>is_pcrel := True\<rparr>"

definition ex_far_rel :: MachRel where
  "ex_far_rel = (ex_rel 96 1 False)\<lparr>is_pcrel := True\<rparr>"

text \<open>
  An object file whose two sections both start at address \<open>0x100\<close>:
  subsection 10 of the second section has the input address of subsection 7
  of the first. Its three unwind entries lie at \<open>0x100\<close> and \<open>0x108\<close> in the
  first section and at \<open>0x104\<close> in the second.
\<close>

definition ex_overlap_store :: subsec_store where
  "ex_overlap_store = ex_store
     (10 := \<lparr>input_addr = 0x100, input_size = 0x10, unwind_offset = 0, nunwind = 0\<rparr>)"

definition ex_overlap_find :: "subsec_ptr list \<Rightarrow> u32 \<Rightarrow> subsec_ptr option" where
  "ex_overlap_find sec a =
     (case filter (\<lambda>p. input_addr (ex_overlap_store p) \<le> a) sec of
        [] \<Rightarrow> None
      | p # ps \<Rightarrow> Some (last (p # ps)))"

definition ex_overlap_object :: "(subsec_ptr list) ObjectFile" where
  "ex_overlap_object = \<lparr>mf_name = ''overlap.o'', archive_name = [], priority = 4,
     is_dylib = False, syms = [], sections = [[7, 8], [10]], mach_syms = [],
     unwind_records = []\<rparr>"

definition ex_overlap_src :: "CompactUnwindEntry list" where
  "ex_overlap_src =
     [\<lparr>code_start = 0x100, code_len = 4, encoding = 0, personality = 0, lsda = 0\<rparr>,
      \<lparr>code_start = 0x104, code_len = 4, encoding = 0, personality = 0, lsda = 0\<rparr>,
      \<lparr>code_start = 0x108, code_len = 4, encoding = 0, personality = 0, lsda = 0\<rparr>]"

definition ex_overlap_rels :: "MachRel list" where
  "ex_overlap_rels = [ex_rel 0 1 False, ex_rel 32 2 False, ex_rel 64 1 False]"

definition ex_overlap_records :: "UnwindRecord list" where
  "ex_overlap_records =
     [(new_UnwindRecord 4 0)\<lparr>UnwindRecord.subsec := Some 7, UnwindRecord.offset := 0\<rparr>,
      (new_UnwindRecord 4 0)\<lparr>UnwindRecord.subsec := Some 10, UnwindRecord.offset := 4\<rparr>,
      (new_UnwindRecord 4 0)\<lparr>UnwindRecord.subsec := Some 7, UnwindRecord.offset := 8\<rparr>]"

definition ex_overlap_parsed_store :: subsec_store where
  "ex_overlap_parsed_store = ex_overlap_store
     (7 := \<lparr>input_addr = 0x100, input_size = 0x40, unwind_offset = 2, nunwind = 1\<rparr>,
      10 := \<lparr>input_addr = 0x100, input_size = 0x10, unwind_offset = 1, nunwind = 1\<rparr>)"

section \<open>Properties of \<^verbatim>\<open>DylibFile::resolve_symbols\<close>\<close>

lemma dylib_skips_installed:
  "\<not> dylib_skips this (symb\<lparr>file := Some (InputFile.truncate this), Symbol.is_extern := True\<rparr>)"
  by (simp add: dylib_skips_def InputFile.truncate_def)

lemma dylib_resolve_symbol_idem:
  "dylib_resolve_symbol this (dylib_resolve_symbol this symb) = dylib_resolve_symbol this symb"
  by (simp add: dylib_resolve_symbol_def dylib_skips_installed)

lemma dylib_resolve_loop_at:
  "dylib_resolve_loop this ss tab s =
     (if s \<in> set ss then dylib_resolve_symbol this (tab s) else tab s)"
proof (induction ss arbitrary: tab)
  case Nil
  show ?case by simp
next
  case (Cons a ss)
  show ?case
    by (simp add: Cons.IH dylib_resolve_symbol_idem)
qed

lemma dylib_skips_other_file:
  assumes "dylib_skips this symb"
  shows "file symb \<noteq> Some (InputFile.truncate this)"
proof
  assume "file symb = Some (InputFile.truncate this)"
  then have "priority this <s priority this"
    using assms by (simp add: dylib_skips_def InputFile.truncate_def)
  then show False by simp
qed

text \<open>
  C3. For every exported name \<open>s\<close> of the library, after
  \<^verbatim>\<open>DylibFile::resolve_symbols\<close> the library is the symbol's owning file if
  and only if the symbol had no owning file or its owner's priority was not
  strictly smaller than the library's. A symbol owned by an input of strictly
  smaller priority is left exactly as it was, and a symbol without an owner is
  given the library as owner.
\<close>

theorem dylib_resolve_symbols_installs_iff:
  assumes "s \<in> set (syms this)"
  shows "(file (dylib_resolve_symbols this tab s) = Some (InputFile.truncate this)
          \<longleftrightarrow> (case file (tab s) of None \<Rightarrow> True
                | Some f \<Rightarrow> \<not> priority f <s priority this))
         \<and> (\<forall>f. file (tab s) = Some f \<and> priority f <s priority this
                \<longrightarrow> dylib_resolve_symbols this tab s = tab s)
         \<and> (file (tab s) = None
                \<longrightarrow> file (dylib_resolve_symbols this tab s) = Some (InputFile.truncate this))"
proof -
  have at: "dylib_resolve_symbols this tab s = dylib_resolve_symbol this (tab s)"
    using assms by (simp add: dylib_resolve_symbols_def dylib_resolve_loop_at)
  show ?thesis
  proof (cases "dylib_skips this (tab s)")
    case True
    then have "file (tab s) \<noteq> Some (InputFile.truncate this)"
      by (rule dylib_skips_other_file)
    with True show ?thesis
      by (auto simp: at dylib_resolve_symbol_def dylib_skips_def split: option.splits)
  next
    case False
    then show ?thesis
      by (auto simp: at dylib_resolve_symbol_def dylib_skips_def split: option.splits)
  qed
qed

theorem dylib_resolve_symbols_installs_iff_witness:
  "file (dylib_resolve_symbols ex_dylib ex_table 0) = Some ex_early_file
   \<and> dylib_resolve_symbols ex_dylib ex_table 0 = ex_table 0
   \<and> file (dylib_resolve_symbols ex_dylib ex_table 1) = Some (InputFile.truncate ex_dylib)
   \<and> file (dylib_resolve_symbols ex_dylib ex_table 2) = Some (InputFile.truncate ex_dylib)"
proof -
  have in0: "0 \<in> set (syms ex_dylib)" and in1: "1 \<in> set (syms ex_dylib)"
    and in2: "2 \<in> set (syms ex_dylib)"
    by (simp_all add: ex_dylib_def)
  have f0: "file (ex_table 0) = Some ex_early_file"
    and f1: "file (ex_table 1) = None"
    and f2: "file (ex_table 2) = Some ex_late_file"
    by (simp_all add: ex_table_def ex_symbol_def)
  have p0: "priority ex_early_file <s priority ex_dylib"
    by (simp add: ex_early_file_def ex_dylib_def)
  have p2: "\<not> priority ex_late_file <s priority ex_dylib"
    by (simp add: ex_late_file_def ex_dylib_def)
  have same0: "dylib_resolve_symbols ex_dylib ex_table 0 = ex_table 0"
    using dylib_resolve_symbols_installs_iff [OF in0, of ex_table] f0 p0 by simp
  have own1: "file (dylib_resolve_symbols ex_dylib ex_table 1) = Some (InputFile.truncate ex_dylib)"
    using dylib_resolve_symbols_installs_iff [OF in1, of ex_table] f1 by simp
  have own2: "file (dylib_resolve_symbols ex_dylib ex_table 2) = Some (InputFile.truncate ex_dylib)"
    using dylib_resolve_symbols_installs_iff [OF in2, of ex_table] f2 p2 by simp
  show ?thesis
    using same0 own1 own2 f0 by simp
qed

text \<open>
  C10. \<^verbatim>\<open>DylibFile::resolve_symbols\<close> leaves the \<open>subsec\<close>, \<open>value\<close> and
  \<open>is_lazy\<close> fields of every symbol as they were; where it installs the
  library (an exported name it does not skip) it sets \<open>file\<close> to the library
  and \<open>is_extern\<close> to true and nothing else, so a symbol that an object file
  had defined keeps that definition's subsection and value under its new owner.
\<close>

theorem dylib_resolve_symbols_frame:
  "Symbol.subsec (dylib_resolve_symbols this tab s) = Symbol.subsec (tab s)
   \<and> Symbol.value (dylib_resolve_symbols this tab s) = Symbol.value (tab s)
   \<and> is_lazy (dylib_resolve_symbols this tab s) = is_lazy (tab s)
   \<and> (s \<in> set (syms this) \<and> \<not> dylib_skips this (tab s) \<longrightarrow>
        dylib_resolve_symbols this tab s =
          (tab s)\<lparr>file := Some (InputFile.truncate this), Symbol.is_extern := True\<rparr>)"
  by (simp add: dylib_resolve_symbols_def dylib_resolve_loop_at dylib_resolve_symbol_def)

theorem dylib_resolve_symbols_frame_witness:
  "dylib_resolve_symbols ex_dylib ex_table 2 =
     \<lparr>file = Some (InputFile.truncate ex_dylib), subsec = Some 4, value = 16,
      is_extern = True, is_lazy = False\<rparr>
   \<and> file (ex_table 2) = Some ex_late_file"
proof -
  have in2: "2 \<in> set (syms ex_dylib)"
    by (simp add: ex_dylib_def)
  have ns: "\<not> dylib_skips ex_dylib (ex_table 2)"
    by (simp add: dylib_skips_def ex_table_def ex_symbol_def ex_late_file_def ex_dylib_def)
  have "dylib_resolve_symbols ex_dylib ex_table 2 =
          (ex_table 2)\<lparr>file := Some (InputFile.truncate ex_dylib), Symbol.is_extern := True\<rparr>"
    using dylib_resolve_symbols_frame [of ex_dylib ex_table 2] in2 ns by simp
  then show ?thesis
    by (simp add: ex_table_def ex_symbol_def)
qed

section \<open>Rank order across the resolution passes\<close>

lemmas resolve_eval_simps =
  resolve_lazy_symbols_def resolve_regular_symbols_def resolve_regular_symbol_def
  get_rank_def get_rank_sym_def add_band_def N_SECT_def N_ABS_def InputFile.truncate_def
  ex_object_def ex_member_def ex_msym_def ex_fresh_def ex_store_def ex_find_subsection_def
  ex_defined_by_object_def ex_defined_by_member_def

lemma ex_object_resolves:
  "resolve_regular_symbols ex_find_subsection ex_store ex_object ex_fresh =
     Some (ex_fresh(0 := ex_defined_by_object))"
  by (simp add: resolve_eval_simps)

lemma ex_member_resolves:
  "resolve_lazy_symbols ex_find_subsection ex_store ex_member ex_fresh =
     Some (ex_fresh(0 := ex_defined_by_member))"
  by (simp add: resolve_eval_simps)

lemma ex_member_after_object:
  "resolve_lazy_symbols ex_find_subsection ex_store ex_member (ex_fresh(0 := ex_defined_by_object)) =
     Some (ex_fresh(0 := ex_defined_by_member))"
  by (simp add: resolve_eval_simps)

lemma ex_object_after_member:
  "resolve_regular_symbols ex_find_subsection ex_store ex_object (ex_fresh(0 := ex_defined_by_member)) =
     Some (ex_fresh(0 := ex_defined_by_object))"
  by (simp add: resolve_eval_simps)

text \<open>
  C1, evaluated on the code. The strong definition of symbol 0 in the regular
  object file \<open>main.o\<close> (priority 5) does not survive the library pass: the
  library \<open>libSystem.tbd\<close> (priority 3) exports the name and becomes the
  owner, because \<^verbatim>\<open>DylibFile::resolve_symbols\<close> compares priorities only.
  And between \<open>main.o\<close> and the archive member \<open>b.o\<close> (priority 2) the
  winner depends on the order of the two passes: whichever runs last wins.
\<close>

theorem strong_object_definition_displaced:
  "map_option (\<lambda>tab. file (dylib_resolve_symbols ex_dylib tab 0))
      (resolve_regular_symbols ex_find_subsection ex_store ex_object ex_fresh)
     = Some (Some (InputFile.truncate ex_dylib))
   \<and> Option.bind (resolve_regular_symbols ex_find_subsection ex_store ex_object ex_fresh)
        (resolve_lazy_symbols ex_find_subsection ex_store ex_member)
     = Some (ex_fresh(0 := ex_defined_by_member))
   \<and> Option.bind (resolve_lazy_symbols ex_find_subsection ex_store ex_member ex_fresh)
        (resolve_regular_symbols ex_find_subsection ex_store ex_object)
     = Some (ex_fresh(0 := ex_defined_by_object))"
proof -
  have "file (dylib_resolve_symbols ex_dylib (ex_fresh(0 := ex_defined_by_object)) 0)
          = Some (InputFile.truncate ex_dylib)"
    by (simp add: dylib_resolve_symbols_def dylib_resolve_loop_at dylib_resolve_symbol_def
        dylib_skips_def ex_dylib_def ex_defined_by_object_def ex_object_def
        InputFile.truncate_def)
  then show ?thesis
    by (simp add: ex_object_resolves ex_member_resolves ex_member_after_object
        ex_object_after_member)
qed

text \<open>
  C2, evaluated on the code. \<^verbatim>\<open>resolve_lazy_symbols\<close> only calls
  \<^verbatim>\<open>resolve_regular_symbols\<close>, which ranks its candidate with
  \<open>is_lazy = false\<close>. For the archive member \<open>b.o\<close> (priority 2) the candidate
  rank of the lazy path is therefore \<open>(1 << 24) + 2\<close>, not \<open>(5 << 24) + 2\<close>, and
  the member takes symbol 0 from the regular object file \<open>main.o\<close>
  (rank \<open>(1 << 24) + 5\<close>), which a candidate of band 5 could not.
\<close>

theorem lazy_candidate_ranked_as_regular:
  "resolve_lazy_symbols ex_find_subsection ex_store ex_member (ex_fresh(0 := ex_defined_by_object))
     = Some (ex_fresh(0 := ex_defined_by_member))
   \<and> get_rank ex_member (hd (mach_syms ex_member)) False = Some 16777218
   \<and> get_rank_sym ex_defined_by_object = Some 16777221
   \<and> get_rank ex_member (hd (mach_syms ex_member)) True = Some 83886082"
  by (simp add: resolve_eval_simps)

section \<open>Properties of \<^verbatim>\<open>ObjectFile::parse_compact_unwind\<close>\<close>

lemma read_entries_length:
  "read_entries src i n recs = Some recs' \<Longrightarrow> length recs' = length recs + (n - i)"
proof (induction src i n recs rule: read_entries.induct)
  case (1 src i n recs)
  show ?case
  proof (cases "i < n")
    case True
    with "1.prems" have inb: "i < length src"
      by (subst (asm) read_entries.simps) (simp split: if_splits)
    from "1.prems" True inb have "read_entries src (i + 1) n
        (recs @ [new_UnwindRecord (CompactUnwindEntry.code_len (src ! i))
                       (CompactUnwindEntry.encoding (src ! i))]) = Some recs'"
      by (subst (asm) read_entries.simps) simp
    from "1.IH" [OF True inb this] True show ?thesis by simp
  next
    case False
    with "1.prems" show ?thesis
      by (subst (asm) read_entries.simps) simp
  qed
qed

lemma read_relocation_Ok_frame:
  "read_relocation fs store hdr src i r obj = Ok obj' \<Longrightarrow>
     length (unwind_records obj') = length (unwind_records obj) \<and> mf_name obj' = mf_name obj
     \<and> sections obj' = sections obj \<and> syms obj' = syms obj"
  by (auto simp: read_relocation_def Let_def split: if_splits option.splits)

lemma read_relocation_Fatal_frame:
  "read_relocation fs store hdr src i r obj = Fatal msg obj' \<Longrightarrow> obj' = obj"
  by (auto simp: read_relocation_def Let_def split: if_splits option.splits)

lemma read_relocations_frame:
  "read_relocations fs store hdr src rels i n obj = Ok obj' \<or>
   read_relocations fs store hdr src rels i n obj = Fatal msg obj' \<Longrightarrow>
     length (unwind_records obj') = length (unwind_records obj) \<and> mf_name obj' = mf_name obj
     \<and> sections obj' = sections obj \<and> syms obj' = syms obj"
proof (induction fs store hdr src rels i n obj rule: read_relocations.induct)
  case (1 fs store hdr src rels i n obj)
  show ?case
  proof (cases "i < n")
    case False
    with "1.prems" show ?thesis
      by (subst (asm) (1 2) read_relocations.simps) auto
  next
    case True
    with "1.prems" have inb: "i < length rels"
      by (subst (asm) (1 2) read_relocations.simps) (auto split: if_splits)
    show ?thesis
    proof (cases "read_relocation fs store hdr src i (rels ! i) obj")
      case (Ok t)
      with "1.prems" True inb have
        "read_relocations fs store hdr src rels (i + 1) n t = Ok obj' \<or>
         read_relocations fs store hdr src rels (i + 1) n t = Fatal msg obj'"
        by (subst (asm) (1 2) read_relocations.simps) simp
      from "1.IH" [OF True inb Ok this] read_relocation_Ok_frame [OF Ok]
      show ?thesis by simp
    next
      case (Fatal m t)
      with "1.prems" True inb have "obj' = t"
        by (subst (asm) (1 2) read_relocations.simps) simp
      with read_relocation_Fatal_frame [OF Fatal] show ?thesis by simp
    next
      case Undefined
      with "1.prems" True inb show ?thesis
        by (subst (asm) (1 2) read_relocations.simps) simp
    qed
  qed
qed

lemma check_relocated_frame:
  "check_relocated obj i n = Ok obj' \<or> check_relocated obj i n = Fatal msg obj' \<Longrightarrow> obj' = obj"
proof (induction obj i n rule: check_relocated.induct)
  case (1 obj i n)
  show ?case
  proof (cases "i < n \<and> i < length (unwind_records obj) \<and> UnwindRecord.subsec (unwind_records obj ! i) \<noteq> None")
    case True
    with "1.prems" have "check_relocated obj (i + 1) n = Ok obj' \<or> check_relocated obj (i + 1) n = Fatal msg obj'"
      by (subst (asm) (1 2) check_relocated.simps) auto
    with "1.IH" True show ?thesis by auto
  next
    case False
    with "1.prems" show ?thesis
      by (subst (asm) (1 2) check_relocated.simps) (auto split: if_splits)
  qed
qed

lemmas parse_eval_simps =
  parse_compact_unwind_def read_entries.simps read_relocations.simps read_relocation_def
  check_relocated.simps sort_unwind_records_def unwind_key_def associate.simps skip_run.simps
  sizeof_CompactUnwindEntry_def offsetof_code_start_def offsetof_personality_def
  offsetof_lsda_def new_UnwindRecord_def unsupported_relocation_def Let_def
  ex_hdr_def ex_src_def ex_rels_def ex_rel_def ex_object_def ex_store_def
  ex_find_subsection_def ex_msym_def

lemma ex_parse:
  "parse_compact_unwind ex_find_subsection ex_hdr ex_src ex_rels (ex_object, ex_store) =
     Ok (ex_object\<lparr>unwind_records := ex_parsed_records\<rparr>, ex_parsed_store)"
  by (simp add: parse_eval_simps ex_parsed_records_def ex_parsed_store_def fun_eq_iff)

lemma sort_unwind_records_length:
  "sort_unwind_records store recs = Some recs' \<Longrightarrow> length recs' = length recs"
  by (auto simp: sort_unwind_records_def split: if_splits)

lemma parse_compact_unwind_length:
  assumes mult: "unat (sizeb hdr) mod sizeof_CompactUnwindEntry = 0"
    and res: "parse_compact_unwind fs hdr src rels (obj, store) = Ok (obj', store') \<or>
              parse_compact_unwind fs hdr src rels (obj, store) = Fatal msg (obj', store')"
  shows "length (unwind_records obj') =
           length (unwind_records obj) + unat (sizeb hdr) div sizeof_CompactUnwindEntry"
proof -
  define n where "n = unat (sizeb hdr) div sizeof_CompactUnwindEntry"
  obtain recs where re: "read_entries src 0 n (unwind_records obj) = Some recs"
    using res mult by (cases "read_entries src 0 n (unwind_records obj)")
      (auto simp: parse_compact_unwind_def Let_def n_def)
  have len: "length recs = length (unwind_records obj) + n"
    using read_entries_length [OF re] by simp
  let ?start = "obj\<lparr>unwind_records := recs\<rparr>"
  let ?rr = "read_relocations fs store hdr src rels 0 (unat (nreloc hdr)) ?start"
  show ?thesis
  proof (cases ?rr)
    case Undefined
    with res mult re show ?thesis
      by (simp add: parse_compact_unwind_def Let_def n_def)
  next
    case (Fatal m t)
    with res mult re have "obj' = t"
      by (simp add: parse_compact_unwind_def Let_def n_def)
    moreover have "length (unwind_records t) = length recs"
      using read_relocations_frame [of fs store hdr src rels 0 "unat (nreloc hdr)" ?start t m] Fatal
      by simp
    ultimately show ?thesis using len by (simp add: n_def)
  next
    case (Ok t)
    have lt: "length (unwind_records t) = length recs"
      using read_relocations_frame [of fs store hdr src rels 0 "unat (nreloc hdr)" ?start t msg] Ok
      by simp
    show ?thesis
    proof (cases "check_relocated t 0 n")
      case Undefined
      with res mult re Ok show ?thesis
        by (simp add: parse_compact_unwind_def Let_def n_def)
    next
      case (Fatal m u)
      then have "u = t" using check_relocated_frame [of t 0 n u m] by simp
      with Fatal res mult re Ok have "obj' = t"
        by (simp add: parse_compact_unwind_def Let_def n_def)
      then show ?thesis using lt len by (simp add: n_def)
    next
      case ok2: (Ok u)
      then have ut: "u = t" using check_relocated_frame [of t 0 n u msg] by simp
      from res mult re Ok ok2 ut obtain recs' where
        so: "sort_unwind_records store (unwind_records t) = Some recs'"
        and th: "obj' = t\<lparr>unwind_records := recs'\<rparr>"
        by (auto simp: parse_compact_unwind_def Let_def n_def split: option.splits)
      from sort_unwind_records_length [OF so] th lt len show ?thesis
        by (simp add: n_def)
    qed
  qed
qed

text \<open>
  C7. When the size of the section is not a multiple of the record size, the
  function ends with the fatal error of the size check and the state it was
  given, so no record has been appended. When the size is a multiple, the
  number of records appended is the size divided by the record size, both
  when the function returns and when a later fatal error ends it.
\<close>

theorem parse_compact_unwind_size:
  "(unat (sizeb hdr) mod sizeof_CompactUnwindEntry \<noteq> 0 \<longrightarrow>
      parse_compact_unwind fs hdr src rels (obj, store) =
        Fatal [MFile (mf_name obj), MStr '': invalid __compact_unwind section size'']
          (obj, store))
   \<and> (unat (sizeb hdr) mod sizeof_CompactUnwindEntry = 0 \<longrightarrow>
        (\<forall>obj' store'. parse_compact_unwind fs hdr src rels (obj, store) = Ok (obj', store') \<longrightarrow>
           length (unwind_records obj') =
             length (unwind_records obj) + unat (sizeb hdr) div sizeof_CompactUnwindEntry)
        \<and> (\<forall>msg obj' store'.
             parse_compact_unwind fs hdr src rels (obj, store) = Fatal msg (obj', store') \<longrightarrow>
           length (unwind_records obj') =
             length (unwind_records obj) + unat (sizeb hdr) div sizeof_CompactUnwindEntry))"
proof (intro conjI impI allI)
  assume "unat (sizeb hdr) mod sizeof_CompactUnwindEntry \<noteq> 0"
  then show "parse_compact_unwind fs hdr src rels (obj, store) =
        Fatal [MFile (mf_name obj), MStr '': invalid __compact_unwind section size'']
          (obj, store)"
    by (simp add: parse_compact_unwind_def)
next
  fix obj' store'
  assume "unat (sizeb hdr) mod sizeof_CompactUnwindEntry = 0"
    and "parse_compact_unwind fs hdr src rels (obj, store) = Ok (obj', store')"
  then show "length (unwind_records obj') =
             length (unwind_records obj) + unat (sizeb hdr) div sizeof_CompactUnwindEntry"
    using parse_compact_unwind_length [of hdr fs src rels obj store obj' store'] by simp
next
  fix msg obj' store'
  assume "unat (sizeb hdr) mod sizeof_CompactUnwindEntry = 0"
    and "parse_compact_unwind fs hdr src rels (obj, store) = Fatal msg (obj', store')"
  then show "length (unwind_records obj') =
             length (unwind_records obj) + unat (sizeb hdr) div sizeof_CompactUnwindEntry"
    using parse_compact_unwind_length [of hdr fs src rels obj store obj' store' msg] by simp
qed

theorem parse_compact_unwind_size_witness:
  "parse_compact_unwind ex_find_subsection (ex_hdr\<lparr>sizeb := 40\<rparr>) ex_src ex_rels (ex_object, ex_store)
     = Fatal [MFile ''main.o'', MStr '': invalid __compact_unwind section size'']
         (ex_object, ex_store)
   \<and> unwind_records ex_object = []
   \<and> (\<exists>obj' store'.
        parse_compact_unwind ex_find_subsection ex_hdr ex_src ex_rels (ex_object, ex_store)
          = Ok (obj', store')
        \<and> length (unwind_records obj') = 3)"
proof -
  have bad: "unat (sizeb (ex_hdr\<lparr>sizeb := 40\<rparr>)) mod sizeof_CompactUnwindEntry \<noteq> 0"
    by (simp add: sizeof_CompactUnwindEntry_def)
  have good: "unat (sizeb ex_hdr) mod sizeof_CompactUnwindEntry = 0"
    and three: "unat (sizeb ex_hdr) div sizeof_CompactUnwindEntry = 3"
    by (simp_all add: sizeof_CompactUnwindEntry_def ex_hdr_def)
  have nm: "mf_name ex_object = ''main.o''" and emp: "unwind_records ex_object = []"
    by (simp_all add: ex_object_def)
  have 1: "parse_compact_unwind ex_find_subsection (ex_hdr\<lparr>sizeb := 40\<rparr>) ex_src ex_rels
      (ex_object, ex_store)
     = Fatal [MFile ''main.o'', MStr '': invalid __compact_unwind section size'']
         (ex_object, ex_store)"
    using parse_compact_unwind_size [of "ex_hdr\<lparr>sizeb := 40\<rparr>" ex_find_subsection ex_src
        ex_rels ex_object ex_store] bad nm by simp
  have 2: "length (unwind_records (ex_object\<lparr>unwind_records := ex_parsed_records\<rparr>)) = 3"
    using parse_compact_unwind_size [of ex_hdr ex_find_subsection ex_src ex_rels ex_object
        ex_store] good three emp ex_parse by simp
  show ?thesis
    using 1 2 emp ex_parse by simp
qed

lemma read_relocations_split:
  "a \<le> i \<Longrightarrow> i \<le> n \<Longrightarrow>
   read_relocations fs store hdr src rels a i obj = Ok t \<Longrightarrow>
   read_relocations fs store hdr src rels a n obj = read_relocations fs store hdr src rels i n t"
proof (induction fs store hdr src rels a i obj rule: read_relocations.induct)
  case (1 fs store hdr src rels a i obj)
  show ?case
  proof (cases "a < i")
    case False
    with "1.prems" have "a = i" by simp
    moreover from this "1.prems" have "t = obj"
      by (subst (asm) read_relocations.simps) simp
    ultimately show ?thesis by simp
  next
    case True
    with "1.prems" have inb: "a < length rels"
      by (subst (asm) read_relocations.simps) (simp split: if_splits)
    from "1.prems" True inb obtain obj1 where
      step: "read_relocation fs store hdr src a (rels ! a) obj = Ok obj1"
      and rest: "read_relocations fs store hdr src rels (a + 1) i obj1 = Ok t"
      by (subst (asm) read_relocations.simps) (auto split: outcome.splits)
    have "read_relocations fs store hdr src rels (a + 1) n obj1 =
            read_relocations fs store hdr src rels i n t"
      using "1.IH" [OF True inb step _ _ rest] True "1.prems" by simp
    moreover have "read_relocations fs store hdr src rels a n obj =
            read_relocations fs store hdr src rels (a + 1) n obj1"
      using True "1.prems" inb step by (subst read_relocations.simps) simp
    ultimately show ?thesis by simp
  qed
qed

lemma read_relocation_unsupported:
  assumes inside: "unat (MachRel.offset r) < unat (sizeb hdr)"
    and idx: "unat (MachRel.offset r) div sizeof_CompactUnwindEntry < length (unwind_records obj)"
    and shape: "unsupported_shape r"
  shows "read_relocation fs store hdr src i r obj = Fatal (unsupported_relocation obj i) obj"
proof -
  have a: "\<not> unat (sizeb hdr) \<le> unat (MachRel.offset r)"
    using inside by simp
  have b: "\<not> length (unwind_records obj) \<le> unat (MachRel.offset r) div sizeof_CompactUnwindEntry"
    using idx by simp
  from shape consider
    (code_start) "unat (MachRel.offset r) mod sizeof_CompactUnwindEntry = offsetof_code_start"
      "is_pcrel r \<or> p2size r \<noteq> 3 \<or> MachRel.is_extern r \<or> MachRel.type r \<noteq> 0"
  | (other) "unat (MachRel.offset r) mod sizeof_CompactUnwindEntry \<noteq> offsetof_code_start"
      "unat (MachRel.offset r) mod sizeof_CompactUnwindEntry \<noteq> offsetof_personality"
      "unat (MachRel.offset r) mod sizeof_CompactUnwindEntry \<noteq> offsetof_lsda"
    unfolding unsupported_shape_def Let_def by blast
  then show ?thesis
  proof cases
    case code_start
    then show ?thesis
      using a b by (simp add: read_relocation_def Let_def)
  next
    case other
    then show ?thesis
      using a b by (simp add: read_relocation_def Let_def)
  qed
qed

text \<open>
  C6, as the code has it. Let the section size be a multiple of the record
  size, the entries be read, and relocations \<open>0, \<dots>, i - 1\<close> be accepted. If
  relocation \<open>i\<close> lies inside the section (\<open>r.offset < hdr.size\<close>) and is at a
  \<open>code_start\<close> field while position-relative, not 8 bytes wide, external or
  typed, or is at none of the three field offsets, then the function ends with
  the fatal error \<open>unsupported relocation\<close> that names the file and \<open>i\<close>.
\<close>

theorem unsupported_relocation_fatal:
  assumes mult: "unat (sizeb hdr) mod sizeof_CompactUnwindEntry = 0"
    and entries: "read_entries src 0 (unat (sizeb hdr) div sizeof_CompactUnwindEntry)
                    (unwind_records obj) = Some recs"
    and i: "i < unat (nreloc hdr)" "i < length rels"
    and reached: "read_relocations fs store hdr src rels 0 i (obj\<lparr>unwind_records := recs\<rparr>) = Ok t"
    and inside: "unat (MachRel.offset (rels ! i)) < unat (sizeb hdr)"
    and shape: "unsupported_shape (rels ! i)"
  shows "parse_compact_unwind fs hdr src rels (obj, store) =
           Fatal [MFile (mf_name obj), MStr '': __compact_unwind: unsupported relocation: '', MNum i]
             (t, store)"
proof -
  let ?n = "unat (sizeb hdr) div sizeof_CompactUnwindEntry"
  let ?start = "obj\<lparr>unwind_records := recs\<rparr>"
  have fr: "length (unwind_records t) = length recs \<and> mf_name t = mf_name obj"
    using read_relocations_frame [of fs store hdr src rels 0 i ?start t "[]"] reached by simp
  have "length recs = length (unwind_records obj) + ?n"
    using read_entries_length [OF entries] by simp
  moreover have "unat (MachRel.offset (rels ! i)) div sizeof_CompactUnwindEntry < ?n"
  proof -
    obtain k where k: "unat (sizeb hdr) = sizeof_CompactUnwindEntry * k"
      using mult by (auto simp: mod_eq_0_iff_dvd)
    then have "unat (MachRel.offset (rels ! i)) < k * sizeof_CompactUnwindEntry"
      using inside by (simp add: mult.commute)
    then have "unat (MachRel.offset (rels ! i)) div sizeof_CompactUnwindEntry < k"
      by (rule less_mult_imp_div_less)
    then show ?thesis
      using k by (simp add: sizeof_CompactUnwindEntry_def)
  qed
  ultimately have idx: "unat (MachRel.offset (rels ! i)) div sizeof_CompactUnwindEntry
      < length (unwind_records t)"
    using fr by simp
  have step: "read_relocation fs store hdr src i (rels ! i) t = Fatal (unsupported_relocation t i) t"
    by (rule read_relocation_unsupported [OF inside idx shape])
  have "read_relocations fs store hdr src rels 0 (unat (nreloc hdr)) ?start =
          read_relocations fs store hdr src rels i (unat (nreloc hdr)) t"
    using read_relocations_split [OF _ _ reached, of "unat (nreloc hdr)"] i by simp
  also have "\<dots> = Fatal (unsupported_relocation t i) t"
    using i step by (subst read_relocations.simps) simp
  finally have "read_relocations fs store hdr src rels 0 (unat (nreloc hdr)) ?start =
      Fatal (unsupported_relocation t i) t" .
  then show ?thesis
    using mult entries fr
    by (simp add: parse_compact_unwind_def Let_def unsupported_relocation_def)
qed

lemmas parse_eval_simps2 = parse_eval_simps ex_read_records_def ex_first_relocated_def
  ex_two_relocated_def ex_pcrel_rel_def ex_far_rel_def

lemma ex_read_entries:
  "read_entries ex_src 0 3 [] = Some ex_read_records"
  by (simp add: parse_eval_simps2)

lemma ex_first_reached:
  "read_relocations ex_find_subsection ex_store (ex_hdr\<lparr>nreloc := 2\<rparr>) ex_src rels 0 0
     (ex_object\<lparr>unwind_records := ex_read_records\<rparr>) = Ok (ex_object\<lparr>unwind_records := ex_read_records\<rparr>)"
  by (simp add: read_relocations.simps)

lemma ex_second_reached:
  "read_relocations ex_find_subsection ex_store (ex_hdr\<lparr>nreloc := 2\<rparr>) ex_src
     [ex_rel 0 1 False, r] 0 1 (ex_object\<lparr>unwind_records := ex_read_records\<rparr>)
     = Ok (ex_object\<lparr>unwind_records := ex_first_relocated\<rparr>)"
  by (simp add: parse_eval_simps2)

theorem unsupported_relocation_fatal_witness:
  "parse_compact_unwind ex_find_subsection (ex_hdr\<lparr>nreloc := 2\<rparr>) ex_src
      [ex_rel 0 1 False, ex_pcrel_rel] (ex_object, ex_store)
     = Fatal [MFile ''main.o'', MStr '': __compact_unwind: unsupported relocation: '', MNum 1]
         (ex_object\<lparr>unwind_records := ex_first_relocated\<rparr>, ex_store)
   \<and> parse_compact_unwind ex_find_subsection (ex_hdr\<lparr>nreloc := 2\<rparr>) ex_src
      [ex_rel 0 1 False, ex_rel 40 1 False] (ex_object, ex_store)
     = Fatal [MFile ''main.o'', MStr '': __compact_unwind: unsupported relocation: '', MNum 1]
         (ex_object\<lparr>unwind_records := ex_first_relocated\<rparr>, ex_store)"
proof -
  let ?hdr = "ex_hdr\<lparr>nreloc := 2\<rparr>"
  have mult: "unat (sizeb ?hdr) mod sizeof_CompactUnwindEntry = 0"
    by (simp add: ex_hdr_def sizeof_CompactUnwindEntry_def)
  have entries: "read_entries ex_src 0 (unat (sizeb ?hdr) div sizeof_CompactUnwindEntry)
      (unwind_records ex_object) = Some ex_read_records"
    using ex_read_entries by (simp add: ex_hdr_def sizeof_CompactUnwindEntry_def ex_object_def)
  have i: "1 < unat (nreloc ?hdr)" by simp
  have nm: "mf_name ex_object = ''main.o''" by (simp add: ex_object_def)
  have a: "parse_compact_unwind ex_find_subsection ?hdr ex_src
      [ex_rel 0 1 False, ex_pcrel_rel] (ex_object, ex_store)
     = Fatal [MFile ''main.o'', MStr '': __compact_unwind: unsupported relocation: '', MNum 1]
         (ex_object\<lparr>unwind_records := ex_first_relocated\<rparr>, ex_store)"
    using unsupported_relocation_fatal [where hdr = ?hdr and src = ex_src and obj = ex_object
        and recs = ex_read_records and i = 1 and rels = "[ex_rel 0 1 False, ex_pcrel_rel]"
        and fs = ex_find_subsection and store = ex_store
        and t = "ex_object\<lparr>unwind_records := ex_first_relocated\<rparr>"]
      mult entries ex_second_reached nm
    by (simp add: unsupported_shape_def ex_pcrel_rel_def ex_rel_def ex_hdr_def
        sizeof_CompactUnwindEntry_def offsetof_code_start_def)
  have b: "parse_compact_unwind ex_find_subsection ?hdr ex_src
      [ex_rel 0 1 False, ex_rel 40 1 False] (ex_object, ex_store)
     = Fatal [MFile ''main.o'', MStr '': __compact_unwind: unsupported relocation: '', MNum 1]
         (ex_object\<lparr>unwind_records := ex_first_relocated\<rparr>, ex_store)"
    using unsupported_relocation_fatal [where hdr = ?hdr and src = ex_src and obj = ex_object
        and recs = ex_read_records and i = 1 and rels = "[ex_rel 0 1 False, ex_rel 40 1 False]"
        and fs = ex_find_subsection and store = ex_store
        and t = "ex_object\<lparr>unwind_records := ex_first_relocated\<rparr>"]
      mult entries ex_second_reached nm
    by (simp add: unsupported_shape_def ex_rel_def ex_hdr_def
        sizeof_CompactUnwindEntry_def offsetof_code_start_def offsetof_personality_def
        offsetof_lsda_def)
  show ?thesis using a b by simp
qed

text \<open>
  C6 as stated does not hold for a relocation at or past the end of the
  section: the guard \<open>r.offset >= hdr.size\<close> comes before the switch. The
  relocation \<open>ex_far_rel\<close> is position-relative and its offset 96 selects the
  \<open>code_start\<close> field, and the fatal error is \<open>relocation offset too large\<close>.
\<close>

theorem relocation_offset_too_large_counterexample:
  "unat (MachRel.offset ex_far_rel) mod sizeof_CompactUnwindEntry = offsetof_code_start
   \<and> is_pcrel ex_far_rel
   \<and> parse_compact_unwind ex_find_subsection (ex_hdr\<lparr>nreloc := 1\<rparr>) ex_src [ex_far_rel]
        (ex_object, ex_store)
     = Fatal [MFile ''main.o'', MStr '': relocation offset too large: '', MNum 0]
         (ex_object\<lparr>unwind_records := ex_read_records\<rparr>, ex_store)
   \<and> parse_compact_unwind ex_find_subsection (ex_hdr\<lparr>nreloc := 1\<rparr>) ex_src [ex_far_rel]
        (ex_object, ex_store)
     \<noteq> Fatal (unsupported_relocation ex_object 0)
         (ex_object\<lparr>unwind_records := ex_read_records\<rparr>, ex_store)"
  by (simp add: parse_eval_simps2)

text \<open>
  C8, evaluated on the code. With relocations for the first two entries only,
  the third record has no subsection and the function ends with the fatal
  error \<open>missing relocation at 2\<close>. The message names the index of the record
  and not the file: \<open>*this\<close> is not streamed into it.
\<close>

theorem missing_relocation_message:
  "parse_compact_unwind ex_find_subsection (ex_hdr\<lparr>nreloc := 2\<rparr>) ex_src ex_rels
      (ex_object, ex_store)
     = Fatal [MStr '': __compact_unwind: missing relocation at '', MNum 2]
         (ex_object\<lparr>unwind_records := ex_two_relocated\<rparr>, ex_store)
   \<and> MFile (mf_name ex_object)
        \<notin> set [MStr '': __compact_unwind: missing relocation at '', MNum 2]"
  by (simp add: parse_eval_simps2)

text \<open>
  C9, evaluated on the code. When \<open>find_subsection\<close> finds no subsection for
  the value stored in the \<open>lsda\<close> field, the \<open>lsda\<close> case dereferences the null
  pointer (undefined behaviour); the \<open>code_start\<close> case, for the same failed
  lookup, ends with the fatal error \<open>unsupported relocation\<close>.
\<close>

theorem lsda_lookup_failure_undefined:
  "parse_compact_unwind ex_find_subsection ex_hdr
      (ex_src[1 := (ex_src ! 1)\<lparr>CompactUnwindEntry.lsda := 0x10\<rparr>]) ex_rels (ex_object, ex_store)
     = Undefined
   \<and> parse_compact_unwind ex_find_subsection ex_hdr
      (ex_src[0 := (ex_src ! 0)\<lparr>code_start := 0x10\<rparr>]) ex_rels (ex_object, ex_store)
     = Fatal [MFile ''main.o'', MStr '': __compact_unwind: unsupported relocation: '', MNum 0]
         (ex_object\<lparr>unwind_records := ex_read_records\<rparr>, ex_store)"
  by (simp add: parse_eval_simps2)

section \<open>Unwind records and their subsections\<close>

lemma skip_run_all:
  "j \<le> k \<Longrightarrow> k < skip_run recs p j n \<Longrightarrow> UnwindRecord.subsec (recs ! k) = Some p"
proof (induction recs p j n rule: skip_run.induct)
  case (1 recs p j n)
  show ?case
  proof (cases "j < n \<and> j < length recs \<and> UnwindRecord.subsec (recs ! j) = Some p")
    case True
    then have eq: "skip_run recs p j n = skip_run recs p (j + 1) n"
      by (subst skip_run.simps) simp
    show ?thesis
    proof (cases "k = j")
      case True
      with \<open>j < n \<and> j < length recs \<and> UnwindRecord.subsec (recs ! j) = Some p\<close>
      show ?thesis by simp
    next
      case False
      with "1.prems" have "j + 1 \<le> k" by simp
      moreover have "k < skip_run recs p (j + 1) n" using "1.prems" eq by simp
      ultimately show ?thesis using "1.IH" True by simp
    qed
  next
    case False
    then have "skip_run recs p j n = j"
      by (subst skip_run.simps) auto
    with "1.prems" show ?thesis by simp
  qed
qed

lemma skip_run_stop:
  "skip_run recs p j n < n \<Longrightarrow> skip_run recs p j n < length recs \<Longrightarrow>
     UnwindRecord.subsec (recs ! skip_run recs p j n) \<noteq> Some p"
proof (induction recs p j n rule: skip_run.induct)
  case (1 recs p j n)
  show ?case
  proof (cases "j < n \<and> j < length recs \<and> UnwindRecord.subsec (recs ! j) = Some p")
    case True
    then have eq: "skip_run recs p j n = skip_run recs p (j + 1) n"
      by (subst skip_run.simps) simp
    with "1.IH" "1.prems" True show ?thesis by simp
  next
    case False
    then have eq: "skip_run recs p j n = j"
      by (subst skip_run.simps) auto
    with "1.prems" False show ?thesis by auto
  qed
qed

lemma associate_input_addr:
  "associate recs i n store = Some store' \<Longrightarrow> input_addr (store' p) = input_addr (store p)"
proof (induction recs i n store arbitrary: store' rule: associate.induct)
  case (1 recs i n store)
  show ?case
  proof (cases "i < n")
    case False
    with "1.prems" show ?thesis
      by (subst (asm) associate.simps) simp
  next
    case True
    with "1.prems" have inb: "\<not> length recs \<le> i"
      by (subst (asm) associate.simps) (simp split: if_splits)
    from "1.prems" True inb obtain q where q: "UnwindRecord.subsec (recs ! i) = Some q"
      by (subst (asm) associate.simps) (auto split: option.splits)
    define j where "j = skip_run recs q (i + 1) n"
    from "1.prems" True inb q have rest: "associate recs j n
        (store(q := (store q)\<lparr>unwind_offset := i, nunwind := j - i\<rparr>)) = Some store'"
      by (subst (asm) associate.simps) (simp add: j_def Let_def)
    from "1.IH" [OF True inb q j_def rest] show ?thesis
      by (simp split: if_splits)
  qed
qed

lemma associate_ranges:
  assumes "associate recs i n store = Some store'"
    and "n = length recs" and "i \<le> n"
    and "\<forall>k<n. UnwindRecord.subsec (recs ! k) \<noteq> None"
    and "\<forall>a b c. a \<le> b \<and> b \<le> c \<and> c < n \<and>
           UnwindRecord.subsec (recs ! a) = UnwindRecord.subsec (recs ! c) \<longrightarrow>
           UnwindRecord.subsec (recs ! b) = UnwindRecord.subsec (recs ! a)"
    and "\<forall>k k'. k < i \<and> i \<le> k' \<and> k' < n \<longrightarrow>
           UnwindRecord.subsec (recs ! k) \<noteq> UnwindRecord.subsec (recs ! k')"
  shows "if \<exists>k. i \<le> k \<and> k < n \<and> UnwindRecord.subsec (recs ! k) = Some p
         then {k. k < n \<and> UnwindRecord.subsec (recs ! k) = Some p} =
                {unwind_offset (store' p) ..< unwind_offset (store' p) + nunwind (store' p)}
         else store' p = store p"
  using assms
proof (induction recs i n store arbitrary: store' rule: associate.induct)
  case (1 recs i n store)
  note contig = "1.prems"(5) and boundary = "1.prems"(6) and nonnull = "1.prems"(4)
  show ?case
  proof (cases "i < n")
    case False
    with "1.prems"(1) have "store' = store"
      by (subst (asm) associate.simps) simp
    with False show ?thesis by auto
  next
    case True
    from True "1.prems"(2) have inb: "\<not> length recs \<le> i" by simp
    from nonnull True obtain q where q: "UnwindRecord.subsec (recs ! i) = Some q"
      by auto
    define j where "j = skip_run recs q (i + 1) n"
    from "1.prems"(1) True inb q have rest: "associate recs j n
        (store(q := (store q)\<lparr>unwind_offset := i, nunwind := j - i\<rparr>)) = Some store'"
      by (subst (asm) associate.simps) (simp add: j_def Let_def)
    have ji: "i + 1 \<le> j" unfolding j_def by (rule skip_run_ge)
    have jn: "j \<le> n" unfolding j_def using True by (intro skip_run_le) simp
    have run: "\<And>k. i \<le> k \<Longrightarrow> k < j \<Longrightarrow> UnwindRecord.subsec (recs ! k) = Some q"
    proof -
      fix k assume "i \<le> k" "k < j"
      show "UnwindRecord.subsec (recs ! k) = Some q"
      proof (cases "k = i")
        case True then show ?thesis using q by simp
      next
        case False
        with \<open>i \<le> k\<close> have "i + 1 \<le> k" by simp
        then show ?thesis using \<open>k < j\<close> skip_run_all unfolding j_def by blast
      qed
    qed
    have stop: "j < n \<Longrightarrow> UnwindRecord.subsec (recs ! j) \<noteq> Some q"
      using skip_run_stop [of recs q "i + 1" n] "1.prems"(2) unfolding j_def by simp
    have after: "\<And>k. j \<le> k \<Longrightarrow> k < n \<Longrightarrow> UnwindRecord.subsec (recs ! k) \<noteq> Some q"
    proof
      fix k assume k: "j \<le> k" "k < n" and eq: "UnwindRecord.subsec (recs ! k) = Some q"
      have "i \<le> j \<and> j \<le> k \<and> k < n \<and>
          UnwindRecord.subsec (recs ! i) = UnwindRecord.subsec (recs ! k)"
        using ji k q eq by simp
      with contig have "UnwindRecord.subsec (recs ! j) = UnwindRecord.subsec (recs ! i)"
        by blast
      moreover have "j < n" using k by simp
      ultimately show False using stop q by simp
    qed
    have before: "\<And>k. k < i \<Longrightarrow> UnwindRecord.subsec (recs ! k) \<noteq> Some q"
      using boundary True q by (metis le_refl)
    have qset: "{k. k < n \<and> UnwindRecord.subsec (recs ! k) = Some q} = {i..<j}"
    proof (intro set_eqI iffI)
      fix k assume "k \<in> {k. k < n \<and> UnwindRecord.subsec (recs ! k) = Some q}"
      then have kn: "k < n" and kq: "UnwindRecord.subsec (recs ! k) = Some q" by auto
      have "i \<le> k" using before kq by (meson not_le)
      moreover have "k < j" using after kn kq by (meson not_le)
      ultimately show "k \<in> {i..<j}" by simp
    next
      fix k assume "k \<in> {i..<j}"
      then show "k \<in> {k. k < n \<and> UnwindRecord.subsec (recs ! k) = Some q}"
        using run jn by auto
    qed
    have boundary': "\<forall>k k'. k < j \<and> j \<le> k' \<and> k' < n \<longrightarrow>
           UnwindRecord.subsec (recs ! k) \<noteq> UnwindRecord.subsec (recs ! k')"
    proof (intro allI impI)
      fix k k' assume h: "k < j \<and> j \<le> k' \<and> k' < n"
      show "UnwindRecord.subsec (recs ! k) \<noteq> UnwindRecord.subsec (recs ! k')"
      proof (cases "k < i")
        case True
        then show ?thesis using boundary h ji by (metis Suc_eq_plus1 Suc_leD le_trans)
      next
        case False
        then have "UnwindRecord.subsec (recs ! k) = Some q" using run h by simp
        then show ?thesis using after h by metis
      qed
    qed
    let ?store1 = "store(q := (store q)\<lparr>unwind_offset := i, nunwind := j - i\<rparr>)"
    have IH: "if \<exists>k. j \<le> k \<and> k < n \<and> UnwindRecord.subsec (recs ! k) = Some p
         then {k. k < n \<and> UnwindRecord.subsec (recs ! k) = Some p} =
                {unwind_offset (store' p) ..< unwind_offset (store' p) + nunwind (store' p)}
         else store' p = ?store1 p"
      using "1.IH" [OF True inb q j_def rest "1.prems"(2) jn nonnull contig boundary'] .
    show ?thesis
    proof (cases "p = q")
      case True
      then have nex: "\<not> (\<exists>k. j \<le> k \<and> k < n \<and> UnwindRecord.subsec (recs ! k) = Some p)"
        using after by blast
      have "store' p = ?store1 p"
        using IH nex by (simp only: if_False)
      with True have "store' q = ?store1 q" by simp
      then have "unwind_offset (store' q) = i" "nunwind (store' q) = j - i" by simp_all
      moreover have "\<exists>k. i \<le> k \<and> k < n \<and> UnwindRecord.subsec (recs ! k) = Some q"
        using q \<open>i < n\<close> by auto
      ultimately show ?thesis using True qset ji by simp
    next
      case False
      have same: "(\<exists>k. i \<le> k \<and> k < n \<and> UnwindRecord.subsec (recs ! k) = Some p)
          \<longleftrightarrow> (\<exists>k. j \<le> k \<and> k < n \<and> UnwindRecord.subsec (recs ! k) = Some p)"
      proof
        assume "\<exists>k. i \<le> k \<and> k < n \<and> UnwindRecord.subsec (recs ! k) = Some p"
        then obtain k where k: "i \<le> k" "k < n" "UnwindRecord.subsec (recs ! k) = Some p"
          by blast
        have "j \<le> k" using run [of k] k False by (cases "k < j") auto
        with k show "\<exists>k. j \<le> k \<and> k < n \<and> UnwindRecord.subsec (recs ! k) = Some p"
          by blast
      next
        assume "\<exists>k. j \<le> k \<and> k < n \<and> UnwindRecord.subsec (recs ! k) = Some p"
        then obtain k where k: "j \<le> k" "k < n" "UnwindRecord.subsec (recs ! k) = Some p"
          by blast
        from k(1) ji have "i \<le> k" by simp
        with k show "\<exists>k. i \<le> k \<and> k < n \<and> UnwindRecord.subsec (recs ! k) = Some p"
          by blast
      qed
      have p1: "?store1 p = store p" using False by simp
      show ?thesis
      proof (cases "\<exists>k. j \<le> k \<and> k < n \<and> UnwindRecord.subsec (recs ! k) = Some p")
        case True
        with IH have "{k. k < n \<and> UnwindRecord.subsec (recs ! k) = Some p} =
                {unwind_offset (store' p) ..< unwind_offset (store' p) + nunwind (store' p)}"
          by (simp only: if_True)
        moreover from True same
        have "\<exists>k. i \<le> k \<and> k < n \<and> UnwindRecord.subsec (recs ! k) = Some p"
          by blast
        ultimately show ?thesis by (simp only: if_True)
      next
        case False
        with IH have "store' p = ?store1 p"
          by (simp only: if_False)
        moreover from False same
        have "\<not> (\<exists>k. i \<le> k \<and> k < n \<and> UnwindRecord.subsec (recs ! k) = Some p)"
          by blast
        ultimately show ?thesis using p1 by (simp only: if_False)
      qed
    qed
  qed
qed

lemma check_relocated_nonnull:
  "check_relocated obj i n = Ok obj' \<Longrightarrow> i \<le> k \<Longrightarrow> k < n \<Longrightarrow>
     k < length (unwind_records obj) \<and> UnwindRecord.subsec (unwind_records obj ! k) \<noteq> None"
proof (induction obj i n rule: check_relocated.induct)
  case (1 obj i n)
  from "1.prems" have lt: "i < n" by simp
  with "1.prems"(1) have inb: "\<not> length (unwind_records obj) \<le> i"
    by (subst (asm) check_relocated.simps) (simp split: if_splits)
  from "1.prems"(1) lt inb have nn: "UnwindRecord.subsec (unwind_records obj ! i) \<noteq> None"
    by (subst (asm) check_relocated.simps) (simp split: if_splits)
  from "1.prems"(1) lt inb nn have rest: "check_relocated obj (i + 1) n = Ok obj'"
    by (subst (asm) check_relocated.simps) simp
  show ?case
  proof (cases "k = i")
    case True
    with inb nn show ?thesis by simp
  next
    case False
    with "1.prems" have "i + 1 \<le> k" by simp
    from "1.IH" [OF lt inb nn rest this "1.prems"(3)] show ?thesis .
  qed
qed

lemma read_entries_owners:
  "read_entries src i n recs = Some recs' \<Longrightarrow> owners_in S recs \<Longrightarrow> owners_in S recs'"
proof (induction src i n recs rule: read_entries.induct)
  case (1 src i n recs)
  show ?case
  proof (cases "i < n")
    case True
    with "1.prems" have inb: "i < length src"
      by (subst (asm) read_entries.simps) (simp split: if_splits)
    let ?recs1 = "recs @ [new_UnwindRecord (CompactUnwindEntry.code_len (src ! i))
                       (CompactUnwindEntry.encoding (src ! i))]"
    from "1.prems" True inb have rest: "read_entries src (i + 1) n ?recs1 = Some recs'"
      by (subst (asm) read_entries.simps) simp
    have "owners_in S ?recs1"
      using "1.prems"(2) by (simp add: owners_in_def new_UnwindRecord_def)
    from "1.IH" [OF True inb rest this] show ?thesis .
  next
    case False
    with "1.prems" show ?thesis
      by (subst (asm) read_entries.simps) simp
  qed
qed

lemma owners_in_update:
  assumes "owners_in S recs" and "\<forall>p. UnwindRecord.subsec r = Some p \<longrightarrow> p \<in> S"
  shows "owners_in S (recs[k := r])"
proof -
  have "set (recs[k := r]) \<subseteq> insert r (set recs)"
    by (rule set_update_subset_insert)
  with assms show ?thesis
    unfolding owners_in_def by blast
qed

lemma read_relocation_owners:
  assumes ok: "read_relocation fs store hdr src i r obj = Ok obj'"
    and own: "owners_in (subsections_of fs (sections obj)) (unwind_records obj)"
  shows "owners_in (subsections_of fs (sections obj)) (unwind_records obj')"
proof -
  define k where "k = unat (MachRel.offset r) div sizeof_CompactUnwindEntry"
  define field where "field = unat (MachRel.offset r) mod sizeof_CompactUnwindEntry"
  let ?S = "subsections_of fs (sections obj)"
  from ok have inside: "\<not> unat (sizeb hdr) \<le> unat (MachRel.offset r)"
    and kb: "\<not> length (unwind_records obj) \<le> k"
    by (auto simp: read_relocation_def Let_def k_def split: if_splits)
  have dst: "\<forall>p. UnwindRecord.subsec (unwind_records obj ! k) = Some p \<longrightarrow> p \<in> ?S"
    using own kb unfolding owners_in_def by (auto simp: not_le)
  consider (cs) "field = offsetof_code_start"
    | (pers) "field \<noteq> offsetof_code_start" "field = offsetof_personality"
    | (ls) "field \<noteq> offsetof_code_start" "field \<noteq> offsetof_personality" "field = offsetof_lsda"
    | (other) "field \<noteq> offsetof_code_start" "field \<noteq> offsetof_personality" "field \<noteq> offsetof_lsda"
    by blast
  then show ?thesis
  proof cases
    case cs
    from ok inside kb cs obtain target where
      valid: "MachRel.idx r \<noteq> 0" "\<not> length (sections obj) < unat (MachRel.idx r)"
      and tg: "fs (sections obj ! (unat (MachRel.idx r) - 1)) (ucast (code_start (src ! k))) = Some target"
      and obj': "unwind_records obj' = (unwind_records obj)[k := (unwind_records obj ! k)
          \<lparr>UnwindRecord.subsec := Some target,
           UnwindRecord.offset := ucast (code_start (src ! k) - ucast (input_addr (store target)))\<rparr>]"
      unfolding read_relocation_def Let_def k_def [symmetric] field_def [symmetric]
      by (auto split: if_splits option.splits)
    from valid have "unat (MachRel.idx r) \<noteq> 0"
      by (simp add: unat_eq_0)
    with valid have "unat (MachRel.idx r) - 1 < length (sections obj)" by simp
    then have "sections obj ! (unat (MachRel.idx r) - 1) \<in> set (sections obj)" by simp
    with tg have "target \<in> ?S" unfolding subsections_of_def by blast
    then show ?thesis unfolding obj' by (intro owners_in_update own) simp
  next
    case pers
    from ok inside kb pers have obj': "unwind_records obj' = (unwind_records obj)[k := (unwind_records obj ! k)
          \<lparr>UnwindRecord.personality := Some (syms obj ! unat (MachRel.idx r))\<rparr>]"
      unfolding read_relocation_def Let_def k_def [symmetric] field_def [symmetric]
      by (auto split: if_splits option.splits)
    show ?thesis unfolding obj' using dst by (intro owners_in_update own) simp
  next
    case ls
    from ok inside kb ls obtain target where
      obj': "unwind_records obj' = (unwind_records obj)[k := (unwind_records obj ! k)
          \<lparr>UnwindRecord.lsda := Some target,
           lsda_offset := ucast (CompactUnwindEntry.lsda (src ! k)) - input_addr (store target)\<rparr>]"
      unfolding read_relocation_def Let_def k_def [symmetric] field_def [symmetric]
      by (auto split: if_splits option.splits)
    show ?thesis unfolding obj' using dst by (intro owners_in_update own) simp
  next
    case other
    with ok inside kb show ?thesis
      unfolding read_relocation_def Let_def k_def [symmetric] field_def [symmetric]
      by simp
  qed
qed

lemma read_relocations_owners:
  "read_relocations fs store hdr src rels i n obj = Ok obj' \<Longrightarrow>
   owners_in (subsections_of fs (sections obj)) (unwind_records obj) \<Longrightarrow>
   owners_in (subsections_of fs (sections obj)) (unwind_records obj')"
proof (induction fs store hdr src rels i n obj rule: read_relocations.induct)
  case (1 fs store hdr src rels i n obj)
  show ?case
  proof (cases "i < n")
    case False
    with "1.prems" show ?thesis
      by (subst (asm) read_relocations.simps) simp
  next
    case True
    with "1.prems" have inb: "i < length rels"
      by (subst (asm) read_relocations.simps) (simp split: if_splits)
    from "1.prems" True inb obtain obj1 where
      step: "read_relocation fs store hdr src i (rels ! i) obj = Ok obj1"
      and rest: "read_relocations fs store hdr src rels (i + 1) n obj1 = Ok obj'"
      by (subst (asm) read_relocations.simps) (auto split: outcome.splits)
    have secs: "sections obj1 = sections obj"
      using read_relocation_Ok_frame [OF step] by simp
    have "owners_in (subsections_of fs (sections obj1)) (unwind_records obj1)"
      using read_relocation_owners [OF step "1.prems"(2)] secs by simp
    from "1.IH" [OF True inb step rest this] secs show ?thesis by simp
  qed
qed

lemma unwind_key_store_cong:
  "(\<And>p. input_addr (store' p) = input_addr (store p)) \<Longrightarrow>
     unwind_key store' = unwind_key store"
  by (auto simp: unwind_key_def fun_eq_iff split: option.splits)

lemma sorted_contiguous:
  assumes srt: "sorted (map (unwind_key store) recs)"
    and own: "owners_in S recs"
    and nn: "\<forall>k<length recs. UnwindRecord.subsec (recs ! k) \<noteq> None"
    and inj: "inj_on (\<lambda>p. input_addr (store p)) S"
    and abc: "a \<le> b" "b \<le> c" "c < length recs"
    and eq: "UnwindRecord.subsec (recs ! a) = UnwindRecord.subsec (recs ! c)"
  shows "UnwindRecord.subsec (recs ! b) = UnwindRecord.subsec (recs ! a)"
proof -
  from nn abc obtain pa pb where pa: "UnwindRecord.subsec (recs ! a) = Some pa"
    and pb: "UnwindRecord.subsec (recs ! b) = Some pb"
    by (metis le_less_trans not_None_eq)
  have pc: "UnwindRecord.subsec (recs ! c) = Some pa" using eq pa by simp
  have inS: "pa \<in> S" "pb \<in> S"
    using own pa pb abc unfolding owners_in_def
    by (metis le_less_trans nth_mem)+
  have "unwind_key store (recs ! a) \<le> unwind_key store (recs ! b)"
    using sorted_nth_mono [OF srt, of a b] abc by simp
  then have 1: "input_addr (store pa) \<le> input_addr (store pb)"
    by (auto simp: unwind_key_def pa pb less_eq_prod_def)
  have "unwind_key store (recs ! b) \<le> unwind_key store (recs ! c)"
    using sorted_nth_mono [OF srt, of b c] abc by simp
  then have 2: "input_addr (store pb) \<le> input_addr (store pa)"
    by (auto simp: unwind_key_def pb pc less_eq_prod_def)
  from 1 2 have "input_addr (store pa) = input_addr (store pb)" by simp
  with inj inS have "pa = pb" by (auto dest: inj_onD)
  with pa pb show ?thesis by simp
qed

text \<open>
  C5, as the code has it. Let the file have no unwind records yet and let its
  subsections start at pairwise distinct input addresses. When \<^verbatim>\<open>parse_compact_unwind\<close> returns
  on a section of \<open>K\<close> records, \<open>unwind_records\<close> has \<open>K\<close> records, sorted by
  the key (input address of the owning subsection, offset in it), every record
  has an owning subsection, and for every subsection that owns a record the
  indices of its records are exactly the interval that starts at its
  \<open>unwind_offset\<close> and has its \<open>nunwind\<close> elements, with \<open>nunwind\<close> positive. So
  the records of a subsection form one run, \<open>unwind_offset\<close> is the first index
  of the run and \<open>nunwind\<close> its length, and since every index below \<open>K\<close> has
  exactly one owner these intervals partition \<open>[0, K)\<close>.
\<close>

theorem parse_compact_unwind_association:
  assumes fresh: "unwind_records obj = []"
    and inj: "distinct_input_addrs fs store (sections obj)"
    and ok: "parse_compact_unwind fs hdr src rels (obj, store) = Ok (obj', store')"
  shows "length (unwind_records obj') = unat (sizeb hdr) div sizeof_CompactUnwindEntry
    \<and> sorted (map (unwind_key store') (unwind_records obj'))
    \<and> (\<forall>i < length (unwind_records obj').
          \<exists>p. UnwindRecord.subsec (unwind_records obj' ! i) = Some p)
    \<and> (\<forall>p. Some p \<in> UnwindRecord.subsec ` set (unwind_records obj') \<longrightarrow>
          0 < nunwind (store' p) \<and>
          {i. i < length (unwind_records obj') \<and>
              UnwindRecord.subsec (unwind_records obj' ! i) = Some p} =
          {unwind_offset (store' p) ..< unwind_offset (store' p) + nunwind (store' p)})"
proof -
  define n where "n = unat (sizeb hdr) div sizeof_CompactUnwindEntry"
  have mult: "unat (sizeb hdr) mod sizeof_CompactUnwindEntry = 0"
    using ok by (auto simp: parse_compact_unwind_def split: if_splits)
  obtain recs where re: "read_entries src 0 n (unwind_records obj) = Some recs"
    using ok mult by (cases "read_entries src 0 n (unwind_records obj)")
      (auto simp: parse_compact_unwind_def Let_def n_def)
  let ?start = "obj\<lparr>unwind_records := recs\<rparr>"
  obtain t where rr: "read_relocations fs store hdr src rels 0 (unat (nreloc hdr)) ?start = Ok t"
    using ok mult re
    by (cases "read_relocations fs store hdr src rels 0 (unat (nreloc hdr)) ?start")
      (auto simp: parse_compact_unwind_def Let_def n_def)
  obtain u where ck: "check_relocated t 0 n = Ok u"
    using ok mult re rr by (cases "check_relocated t 0 n")
      (auto simp: parse_compact_unwind_def Let_def n_def)
  have ut: "u = t" using check_relocated_frame [of t 0 n u "[]"] ck by simp
  obtain recs' where so: "sort_unwind_records store (unwind_records t) = Some recs'"
    using ok mult re rr ck ut by (cases "sort_unwind_records store (unwind_records t)")
      (auto simp: parse_compact_unwind_def Let_def n_def)
  have as: "associate recs' 0 n store = Some store'" and obj': "obj' = t\<lparr>unwind_records := recs'\<rparr>"
    using ok mult re rr ck ut so
    by (auto simp: parse_compact_unwind_def Let_def n_def split: option.splits)
  have recs'_def: "recs' = sort_key (unwind_key store) (unwind_records t)"
    using so by (auto simp: sort_unwind_records_def split: if_splits)
  have lrecs: "length recs = n" using read_entries_length [OF re] fresh by simp
  have fr: "length (unwind_records t) = n \<and> sections t = sections obj"
    using read_relocations_frame [of fs store hdr src rels 0 "unat (nreloc hdr)" ?start t "[]"]
      rr lrecs by simp
  have len: "length recs' = n" using fr recs'_def by simp
  have nn_t: "\<forall>r \<in> set (unwind_records t). UnwindRecord.subsec r \<noteq> None"
  proof
    fix r assume "r \<in> set (unwind_records t)"
    then obtain k where "k < length (unwind_records t)" "r = unwind_records t ! k"
      by (auto simp: in_set_conv_nth)
    then show "UnwindRecord.subsec r \<noteq> None"
      using check_relocated_nonnull [OF ck, of k] fr by simp
  qed
  have set': "set recs' = set (unwind_records t)" unfolding recs'_def by simp
  have nn: "\<forall>k<n. UnwindRecord.subsec (recs' ! k) \<noteq> None"
    using nn_t set' len by (metis nth_mem)
  let ?S = "subsections_of fs (sections obj)"
  have "owners_in ?S recs"
    using read_entries_owners [OF re] fresh by (simp add: owners_in_def)
  then have "owners_in ?S (unwind_records t)"
    using read_relocations_owners [OF rr] by simp
  then have own: "owners_in ?S recs'"
    using set' by (simp add: owners_in_def)
  have srt: "sorted (map (unwind_key store) recs')"
    unfolding recs'_def by (rule sorted_sort_key)
  have inj': "inj_on (\<lambda>p. input_addr (store p)) ?S"
    using inj by (simp add: distinct_input_addrs_def)
  have contig: "\<forall>a b c. a \<le> b \<and> b \<le> c \<and> c < n \<and>
           UnwindRecord.subsec (recs' ! a) = UnwindRecord.subsec (recs' ! c) \<longrightarrow>
           UnwindRecord.subsec (recs' ! b) = UnwindRecord.subsec (recs' ! a)"
    using sorted_contiguous [OF srt own _ inj'] nn len by blast
  have key: "unwind_key store' = unwind_key store"
    by (rule unwind_key_store_cong) (rule associate_input_addr [OF as])
  have ranges: "\<And>p. if \<exists>k. 0 \<le> k \<and> k < n \<and> UnwindRecord.subsec (recs' ! k) = Some p
         then {k. k < n \<and> UnwindRecord.subsec (recs' ! k) = Some p} =
                {unwind_offset (store' p) ..< unwind_offset (store' p) + nunwind (store' p)}
         else store' p = store p"
    by (rule associate_ranges [OF as len [symmetric] _ nn contig]) simp_all
  have part: "\<forall>p. Some p \<in> UnwindRecord.subsec ` set recs' \<longrightarrow>
          0 < nunwind (store' p) \<and>
          {i. i < length recs' \<and> UnwindRecord.subsec (recs' ! i) = Some p} =
          {unwind_offset (store' p) ..< unwind_offset (store' p) + nunwind (store' p)}"
  proof (intro allI impI)
    fix p assume "Some p \<in> UnwindRecord.subsec ` set recs'"
    then obtain k where k: "k < n" "UnwindRecord.subsec (recs' ! k) = Some p"
      using len by (auto simp: in_set_conv_nth)
    then have ex: "\<exists>k. 0 \<le> k \<and> k < n \<and> UnwindRecord.subsec (recs' ! k) = Some p"
      by blast
    have eq: "{k. k < n \<and> UnwindRecord.subsec (recs' ! k) = Some p} =
                {unwind_offset (store' p) ..< unwind_offset (store' p) + nunwind (store' p)}"
      using ranges [of p] ex by (simp only: if_True)
    have "k \<in> {k. k < n \<and> UnwindRecord.subsec (recs' ! k) = Some p}" using k by simp
    then have "k \<in> {unwind_offset (store' p) ..< unwind_offset (store' p) + nunwind (store' p)}"
      unfolding eq .
    then have "0 < nunwind (store' p)" by simp
    with eq len show "0 < nunwind (store' p) \<and>
          {i. i < length recs' \<and> UnwindRecord.subsec (recs' ! i) = Some p} =
          {unwind_offset (store' p) ..< unwind_offset (store' p) + nunwind (store' p)}"
      by simp
  qed
  have owner: "\<forall>i < length recs'. \<exists>p. UnwindRecord.subsec (recs' ! i) = Some p"
    using nn len by simp
  show ?thesis
    using len srt key owner part unfolding obj' n_def by simp
qed

lemma ex_find_subsection_in_section:
  "ex_find_subsection sec a = Some p \<Longrightarrow> p \<in> set sec"
proof -
  assume h: "ex_find_subsection sec a = Some p"
  let ?f = "filter (\<lambda>p. input_addr (ex_store p) \<le> a) sec"
  from h have ne: "?f \<noteq> []" and p: "p = last ?f"
    by (auto simp: ex_find_subsection_def split: list.splits)
  from ne have "last ?f \<in> set ?f" by (rule last_in_set)
  with p show ?thesis by simp
qed

lemma ex_distinct_input_addrs:
  "distinct_input_addrs ex_find_subsection ex_store (sections ex_object)"
proof -
  have sub: "subsections_of ex_find_subsection (sections ex_object) \<subseteq> {7, 8, 9}"
    by (auto simp: subsections_of_def ex_object_def dest!: ex_find_subsection_in_section)
  have "inj_on (\<lambda>p. input_addr (ex_store p)) {7, 8, 9}"
    by (simp add: ex_store_def)
  then show ?thesis
    unfolding distinct_input_addrs_def using sub by (rule inj_on_subset)
qed

theorem parse_compact_unwind_association_witness:
  "parse_compact_unwind ex_find_subsection ex_hdr ex_src ex_rels (ex_object, ex_store) =
     Ok (ex_object\<lparr>unwind_records := ex_parsed_records\<rparr>, ex_parsed_store)
   \<and> map UnwindRecord.subsec ex_parsed_records = [Some 7, Some 8, Some 8]
   \<and> sorted (map (unwind_key ex_parsed_store) ex_parsed_records)
   \<and> {i. i < length ex_parsed_records \<and> UnwindRecord.subsec (ex_parsed_records ! i) = Some 7}
        = {unwind_offset (ex_parsed_store 7) ..<
             unwind_offset (ex_parsed_store 7) + nunwind (ex_parsed_store 7)}
   \<and> {i. i < length ex_parsed_records \<and> UnwindRecord.subsec (ex_parsed_records ! i) = Some 8}
        = {unwind_offset (ex_parsed_store 8) ..<
             unwind_offset (ex_parsed_store 8) + nunwind (ex_parsed_store 8)}
   \<and> map (\<lambda>p. (unwind_offset (ex_parsed_store p), nunwind (ex_parsed_store p))) [7, 8]
        = [(0, 1), (1, 2)]"
proof -
  have fresh: "unwind_records ex_object = []"
    by (simp add: ex_object_def)
  note inst = parse_compact_unwind_association [OF fresh ex_distinct_input_addrs ex_parse]
  have recs: "unwind_records (ex_object\<lparr>unwind_records := ex_parsed_records\<rparr>) = ex_parsed_records"
    by simp
  have srt: "sorted (map (unwind_key ex_parsed_store) ex_parsed_records)"
    using inst unfolding recs by blast
  have part: "\<And>p. Some p \<in> UnwindRecord.subsec ` set ex_parsed_records \<Longrightarrow>
      {i. i < length ex_parsed_records \<and> UnwindRecord.subsec (ex_parsed_records ! i) = Some p}
        = {unwind_offset (ex_parsed_store p) ..<
             unwind_offset (ex_parsed_store p) + nunwind (ex_parsed_store p)}"
    using inst unfolding recs by blast
  have m: "map UnwindRecord.subsec ex_parsed_records = [Some 7, Some 8, Some 8]"
    by (simp add: ex_parsed_records_def)
  have in7: "Some 7 \<in> UnwindRecord.subsec ` set ex_parsed_records"
    and in8: "Some 8 \<in> UnwindRecord.subsec ` set ex_parsed_records"
    by (simp_all add: ex_parsed_records_def)
  have vals: "map (\<lambda>p. (unwind_offset (ex_parsed_store p), nunwind (ex_parsed_store p))) [7, 8]
        = [(0, 1), (1, 2)]"
    by (simp add: ex_parsed_store_def)
  show ?thesis
    using ex_parse m srt part [OF in7] part [OF in8] vals by simp
qed

text \<open>
  C5 as stated does not hold when two subsections have the same input
  address. The sort compares addresses and the association loop compares
  pointers: for \<open>overlap.o\<close> the sorted records are owned by subsections 7, 10
  and 7 in this order, the records of subsection 7 are not one run, and its
  range ends as \<open>unwind_offset = 2\<close>, \<open>nunwind = 1\<close> although it owns the records
  0 and 2.
\<close>

theorem same_address_subsections_counterexample:
  "parse_compact_unwind ex_overlap_find (ex_hdr\<lparr>nreloc := 3\<rparr>) ex_overlap_src ex_overlap_rels
      (ex_overlap_object, ex_overlap_store)
     = Ok (ex_overlap_object\<lparr>unwind_records := ex_overlap_records\<rparr>, ex_overlap_parsed_store)
   \<and> map UnwindRecord.subsec ex_overlap_records = [Some 7, Some 10, Some 7]
   \<and> sorted (map (unwind_key ex_overlap_parsed_store) ex_overlap_records)
   \<and> unwind_offset (ex_overlap_parsed_store 7) = 2
   \<and> nunwind (ex_overlap_parsed_store 7) = 1"
  by (simp add: parse_eval_simps ex_overlap_store_def ex_overlap_find_def ex_overlap_object_def
      ex_overlap_src_def ex_overlap_rels_def ex_overlap_records_def ex_overlap_parsed_store_def
      fun_eq_iff)

section \<open>Running \<^verbatim>\<open>resolve_regular_symbols\<close> twice\<close>

lemma ex_member_resolves_regular:
  "resolve_regular_symbols ex_find_subsection ex_store ex_member ex_fresh =
     Some (ex_fresh(0 := ex_defined_by_member))"
  by (simp add: resolve_eval_simps)

lemma ex_member_second_round:
  "resolve_regular_symbols ex_find_subsection ex_store ex_member
      (ex_fresh(0 := ex_defined_by_object)) = Some (ex_fresh(0 := ex_defined_by_member))"
  by (simp add: resolve_eval_simps)

text \<open>
  C4, evaluated on the code. A first round over the archive member \<open>b.o\<close>
  (priority 2) and the regular object file \<open>main.o\<close> (priority 5) leaves
  symbol 0 defined by \<open>main.o\<close>. In the second round the pass of \<open>b.o\<close> takes
  the symbol (its candidate is ranked in band 1) and changes its file,
  subsection and value; the pass of \<open>main.o\<close> then takes it back, because
  \<open>b.o\<close> as incumbent is ranked in band 5. For \<open>b.o\<close> alone the test also
  succeeds on the symbol \<open>b.o\<close> already owns: its candidate rank
  \<open>(1 << 24) + 2\<close> is below its incumbent rank \<open>(5 << 24) + 2\<close>.
\<close>

theorem second_run_rewrites_symbol:
  "Option.bind (resolve_regular_symbols ex_find_subsection ex_store ex_member ex_fresh)
      (resolve_regular_symbols ex_find_subsection ex_store ex_object)
     = Some (ex_fresh(0 := ex_defined_by_object))
   \<and> resolve_regular_symbols ex_find_subsection ex_store ex_member
        (ex_fresh(0 := ex_defined_by_object))
     = Some (ex_fresh(0 := ex_defined_by_member))
   \<and> ex_defined_by_member \<noteq> ex_defined_by_object
   \<and> resolve_regular_symbols ex_find_subsection ex_store ex_object
        (ex_fresh(0 := ex_defined_by_member))
     = Some (ex_fresh(0 := ex_defined_by_object))
   \<and> resolve_regular_symbols ex_find_subsection ex_store ex_member ex_fresh
     = Some (ex_fresh(0 := ex_defined_by_member))
   \<and> file ex_defined_by_member = Some (InputFile.truncate ex_member)
   \<and> get_rank ex_member (hd (mach_syms ex_member)) False = Some 16777218
   \<and> get_rank_sym ex_defined_by_member = Some 83886082"
proof -
  have ne: "ex_defined_by_member \<noteq> ex_defined_by_object"
    by (simp add: ex_defined_by_member_def ex_defined_by_object_def)
  have ranks: "get_rank ex_member (hd (mach_syms ex_member)) False = Some 16777218"
    "get_rank_sym ex_defined_by_member = Some 83886082"
    "file ex_defined_by_member = Some (InputFile.truncate ex_member)"
    by (simp_all add: resolve_eval_simps)
  show ?thesis
    using ne ranks
    by (simp add: ex_member_resolves_regular ex_member_second_round ex_object_after_member)
qed

end
